theory Spec2Isabelle
  imports Main "HOL-Library.Word"
begin

section \<open>The decision node: framed transport and search controller\<close>

text \<open>
  A shallow embedding of \<^verbatim>\<open>src/decision/main.c\<close>: the framed transport
  (\<^verbatim>\<open>send_message_raw\<close>, \<^verbatim>\<open>receive_message\<close>) and the hill-climbing
  controller (\<^verbatim>\<open>controller_command_cell\<close>, \<^verbatim>\<open>register_anchor\<close>,
  \<^verbatim>\<open>controller_step\<close>).

  Modelling decisions.
  \<^item> \<^verbatim>\<open>uint8_t\<close> is \<open>8 word\<close>. The C \<^verbatim>\<open>int\<close> of the controller is
    \<open>int\<close>: the callers pass values cast from \<^verbatim>\<open>uint8_t\<close> and the grid
    indices stay small, so no 32-bit overflow is reachable.
  \<^item> The \<^verbatim>\<open>int\<close> flags that the source only ever assigns 0 or 1
    (\<^verbatim>\<open>panic_mode\<close>, \<^verbatim>\<open>hit_wall\<close>, \<^verbatim>\<open>g_calm_reached\<close>, the tried flags,
    \<^verbatim>\<open>is_crying_activated\<close>) are \<open>bool\<close>; \<^verbatim>\<open>lastMoveDir\<close> stays an
    \<open>int\<close> (0 idle, 1 left, 2 up), as the source compares it.
  \<^item> The UART is two byte queues. \<open>uart_tx\<close> is everything written by
    \<^verbatim>\<open>uart_send\<close>, oldest first. \<open>uart_rx\<close> holds the bytes that reach the
    receive FIFO before the per-byte wait of \<^verbatim>\<open>timeouted_byte\<close> runs out, so a read
    from the empty queue is the timeout (\<^verbatim>\<open>-1\<close>).
  \<^item> \<^verbatim>\<open>log_printf\<close> appends one line to \<open>log_out\<close>; a line is a constructor
    carrying the arguments of the format string.
  \<^item> The monotonic clock \<^verbatim>\<open>now_msec()\<close> is read at most once per controller step
    (when calm is latched); its value is the parameter \<open>now\<close>, in whole milliseconds.
\<close>

subsection \<open>Constants\<close>

type_synonym byte = "8 word"

definition MSTR :: byte where "MSTR = 0"
definition HRTBT :: byte where "HRTBT = 1"
definition CRY :: byte where "CRY = 2"
definition MTR :: byte where "MTR = 3"

definition MAX_PAY :: byte where "MAX_PAY = 5"

definition thresholdBPM :: int where "thresholdBPM = 10"
definition thresholdCRY :: int where "thresholdCRY = 1"

subsection \<open>Sending a frame\<close>

definition uart_send :: "byte \<Rightarrow> byte list \<Rightarrow> byte list" where
  "uart_send b tx = tx @ [b]"

text \<open>\<^verbatim>\<open>send_message_raw\<close>: header, then \<^verbatim>\<open>payload[i]\<close> for \<open>i < len\<close>.\<close>

definition send_message_raw :: "byte \<Rightarrow> byte \<Rightarrow> byte list \<Rightarrow> byte \<Rightarrow> byte list \<Rightarrow> byte list" where
  "send_message_raw dst src payload len tx =
     fold (\<lambda>i. uart_send (payload ! i)) [0..<unat len]
       (uart_send len (uart_send src (uart_send dst tx)))"

text \<open>The macro \<^verbatim>\<open>send_message\<close>: the length is the size of the array.\<close>

definition send_message :: "byte \<Rightarrow> byte \<Rightarrow> byte list \<Rightarrow> byte list \<Rightarrow> byte list" where
  "send_message dst src payload tx = send_message_raw dst src payload (of_nat (length payload)) tx"

subsection \<open>Receiving a frame\<close>

record receiver =
  uart_rx :: "byte list"
  g_src :: byte
  g_len :: byte
  g_payload :: "byte list"

definition uart_has_data :: "receiver \<Rightarrow> bool" where
  "uart_has_data r = (uart_rx r \<noteq> [])"

definition uart_recv :: "receiver \<Rightarrow> int \<times> receiver" where
  "uart_recv r = (uint (hd (uart_rx r)), r\<lparr>uart_rx := tl (uart_rx r)\<rparr>)"

text \<open>
  \<^verbatim>\<open>timeouted_byte\<close>: the byte when one is there within the wait, else \<^verbatim>\<open>-1\<close>.
\<close>

definition timeouted_byte :: "int \<Rightarrow> receiver \<Rightarrow> int \<times> receiver" where
  "timeouted_byte ms r = (if 0 < ms \<and> uart_has_data r then uart_recv r else (- 1, r))"

definition TIMEOUT :: int where "TIMEOUT = 20"

definition receive_byte :: "receiver \<Rightarrow> int \<times> receiver" where
  "receive_byte r = timeouted_byte TIMEOUT r"

text \<open>The drain loop of a frame for another node: \<open>n\<close> reads, results ignored.\<close>

fun drain_payload :: "nat \<Rightarrow> receiver \<Rightarrow> receiver" where
  "drain_payload 0 r = r"
| "drain_payload (Suc n) r = drain_payload n (snd (receive_byte r))"

text \<open>
  The payload loop of an addressed frame, from index \<open>i\<close> up to \<open>len\<close>: \<open>False\<close>
  when a read times out (the source returns \<^verbatim>\<open>-3\<close> there).
\<close>

function read_payload :: "nat \<Rightarrow> nat \<Rightarrow> receiver \<Rightarrow> bool \<times> receiver" where
  "read_payload i len r =
     (if i < len then
        (case receive_byte r of (b, r1) \<Rightarrow>
           if b < 0 then (False, r1)
           else read_payload (Suc i) len (r1\<lparr>g_payload := (g_payload r1)[i := word_of_int b]\<rparr>))
      else (True, r))"
  by pat_completeness auto
termination
  by (relation "measure (\<lambda>(i, len, r). len - i)") auto

declare read_payload.simps [simp del]

definition receive_message :: "receiver \<Rightarrow> int \<times> receiver" where
  "receive_message r =
     (if \<not> uart_has_data r then (- 1, r)
      else (case receive_byte r of (b, r1) \<Rightarrow>
        if b < 0 then (- 1, r1)
        else let dst = (word_of_int b :: byte) in
          (case receive_byte r1 of (b, r2) \<Rightarrow>
            if b < 0 then (- 1, r2)
            else let src = (word_of_int b :: byte) in
              (case receive_byte r2 of (b, r3) \<Rightarrow>
                if b < 0 then (- 1, r3)
                else let len = (word_of_int b :: byte) in
                  if dst \<noteq> MSTR then (0, drain_payload (unat len) r3)
                  else let len = (if len > MAX_PAY then MAX_PAY else len) in
                    (case read_payload 0 (unat len) r3 of (ok, r4) \<Rightarrow>
                      if \<not> ok then (- 3, r4)
                      else (let r5 = r4\<lparr>g_src := src\<rparr>; r6 = r5\<lparr>g_len := len\<rparr>
                            in (uint (g_len r6), r6)))))))"

subsection \<open>Controller state\<close>

datatype log_line =
    LogCalmReached int
  | LogSetAnchor int int int
  | LogPanic int int
  | LogHBStable int
  | LogCryStable int
  | LogHitLeftWall
  | LogHitUpperWall
  | LogTryLeft int int
  | LogBlockedUp int int
  | LogCalmHolding int int
  | LogFatalError int int
  | LogImproved int int
  | LogImprovedLeft int int
  | LogImprovedUp int int
  | LogSameRD int int
  | LogNoImprovement int int

record ctrl =
  g_amp :: byte
  g_freq :: byte
  curA :: int
  curF :: int
  is_crying_activated :: bool
  ctrl_lastBPM :: int
  ctrl_lastCRY :: int
  prevA :: int
  prevF :: int
  anchorA_mem :: int
  anchorF_mem :: int
  triedLeftFromAnchor :: bool
  triedUpFromAnchor :: bool
  lastMoveDir :: int
  hit_wall :: bool
  anchorMatrix :: "int list list"
  anchorLevel :: int
  panic_mode :: bool
  g_algo_start_ms :: int
  g_calm_reached :: bool
  g_calm_elapsed_ms :: int
  uart_tx :: "byte list"
  log_out :: "log_line list"

definition log_printf :: "log_line \<Rightarrow> ctrl \<Rightarrow> ctrl" where
  "log_printf l s = s\<lparr>log_out := log_out s @ [l]\<rparr>"

subsection \<open>Motor command\<close>

definition command_motor :: "byte \<Rightarrow> byte \<Rightarrow> ctrl \<Rightarrow> ctrl" where
  "command_motor amp freq s =
     (let s1 = s\<lparr>g_amp := amp\<rparr>;
          s2 = s1\<lparr>g_freq := freq\<rparr>
      in s2\<lparr>uart_tx := send_message MTR MSTR [0x4D, amp, freq] (uart_tx s2)\<rparr>)"

definition controller_command_cell :: "int \<Rightarrow> int \<Rightarrow> int \<Rightarrow> ctrl \<Rightarrow> ctrl" where
  "controller_command_cell now aIndex fIndex s =
     (let aIndex = (if aIndex < 0 then 0 else aIndex);
          aIndex = (if aIndex > 4 then 4 else aIndex);
          fIndex = (if fIndex < 0 then 0 else fIndex);
          fIndex = (if fIndex > 4 then 4 else fIndex);
          s1 = s\<lparr>curA := aIndex\<rparr>;
          s2 = s1\<lparr>curF := fIndex\<rparr>;
          s3 = command_motor (word_of_int (curA s2)) (word_of_int (curF s2)) s2
      in if \<not> g_calm_reached s3 \<and> \<not> panic_mode s3 \<and> g_algo_start_ms s3 > 0
            \<and> curA s3 = 0 \<and> curF s3 = 0
         then (let s4 = s3\<lparr>g_calm_reached := True\<rparr>;
                   s5 = s4\<lparr>g_calm_elapsed_ms := now - g_algo_start_ms s4\<rparr>
               in log_printf (LogCalmReached (g_calm_elapsed_ms s5)) s5)
         else s3)"

subsection \<open>Improvement tests and the anchor registry\<close>

definition heartbeat_improved :: "int \<Rightarrow> ctrl \<Rightarrow> bool" where
  "heartbeat_improved bpm_now s =
     (if ctrl_lastBPM s \<le> 0 then False
      else if ctrl_lastBPM s - bpm_now \<ge> thresholdBPM then True
      else False)"

definition crying_improved :: "int \<Rightarrow> ctrl \<Rightarrow> bool" where
  "crying_improved cry_now s =
     (if cry_now \<le> thresholdCRY then True
      else if ctrl_lastCRY s > 0 \<and> ctrl_lastCRY s - cry_now \<ge> thresholdCRY then True
      else False)"

definition register_anchor :: "int \<Rightarrow> int \<Rightarrow> ctrl \<Rightarrow> ctrl" where
  "register_anchor a f s =
     (if a < 0 \<or> a > 4 \<or> f < 0 \<or> f > 4 then s
      else if anchorMatrix s ! nat a ! nat f = 0 then
        (let s1 = s\<lparr>anchorLevel := anchorLevel s + 1\<rparr>;
             s2 = s1\<lparr>anchorMatrix :=
                    (anchorMatrix s1)[nat a := (anchorMatrix s1 ! nat a)[nat f := 10 - anchorLevel s1]]\<rparr>
         in log_printf (LogSetAnchor (a + 1) (f + 1) (anchorLevel s2)) s2)
      else s)"

subsection \<open>One controller step\<close>

text \<open>Lines 539-552: the jump test and the entry into panic mode.\<close>

definition panic_detection :: "int \<Rightarrow> int \<Rightarrow> ctrl \<Rightarrow> ctrl" where
  "panic_detection bpm_now cry_now s =
     (let big_jump = (if ctrl_lastBPM s > 0 then bpm_now - ctrl_lastBPM s \<ge> 30 else False)
      in if \<not> panic_mode s then
           (if big_jump then log_printf (LogPanic bpm_now cry_now) (s\<lparr>panic_mode := True\<rparr>) else s)
         else s)"

text \<open>Lines 569-581: the regime and the local \<^verbatim>\<open>improved\<close>.\<close>

definition check_improved :: "int \<Rightarrow> int \<Rightarrow> ctrl \<Rightarrow> bool \<times> ctrl" where
  "check_improved bpm_now cry_now s =
     (if bpm_now < 150 \<and> (cry_now < 52 \<and> cry_now > 15)
      then (let s1 = s\<lparr>is_crying_activated := True\<rparr> in (crying_improved cry_now s1, s1))
      else (let s1 = s\<lparr>is_crying_activated := False\<rparr> in (heartbeat_improved bpm_now s1, s1)))"

text \<open>Lines 570 and 583-606: the local \<^verbatim>\<open>same\<close>.\<close>

definition check_same :: "int \<Rightarrow> int \<Rightarrow> ctrl \<Rightarrow> bool \<times> ctrl" where
  "check_same bpm_now cry_now s =
     (if ctrl_lastBPM s > 0 then
        (let bpm_delta = \<bar>bpm_now - ctrl_lastBPM s\<bar>;
             cry_delta = (if ctrl_lastCRY s \<ge> 0 then \<bar>cry_now - ctrl_lastCRY s\<bar> else 0)
         in if \<not> is_crying_activated s then
              (if bpm_delta \<le> 3 then
                 (let s1 = log_printf (LogHBStable bpm_delta) s
                  in (lastMoveDir s1 = 1, s1))
               else (False, s))
            else
              (if cry_delta = 0 then
                 (let s1 = log_printf (LogCryStable cry_delta) s
                  in (lastMoveDir s1 = 1, s1))
               else (False, s)))
      else (False, s))"

text \<open>Lines 612-624: the stored anchor follows the current cell when idle.\<close>

definition anchor_sync :: "ctrl \<Rightarrow> ctrl" where
  "anchor_sync s =
     (if lastMoveDir s = 0 then
        (if anchorA_mem s \<noteq> curA s \<or> anchorF_mem s \<noteq> curF s then
           (let s1 = s\<lparr>anchorA_mem := curA s\<rparr>;
                s2 = s1\<lparr>anchorF_mem := curF s1\<rparr>;
                s3 = s2\<lparr>triedLeftFromAnchor := False\<rparr>;
                s4 = s3\<lparr>triedUpFromAnchor := False\<rparr>
            in register_anchor (anchorA_mem s4) (anchorF_mem s4) s4)
         else s)
      else s)"

text \<open>
  Lines 629-689, entered with \<^verbatim>\<open>lastMoveDir == 0\<close>. The flag of the result is
  \<open>True\<close> where the branch ends in \<^verbatim>\<open>return\<close>, and \<open>False\<close> where it leaves
  the chain and \<^verbatim>\<open>controller_step\<close> goes on at line 693.
\<close>

definition first_move :: "int \<Rightarrow> int \<Rightarrow> int \<Rightarrow> ctrl \<Rightarrow> bool \<times> ctrl" where
  "first_move now bpm_now cry_now s =
     (let s1 = s\<lparr>prevA := curA s\<rparr>;
          s2 = s1\<lparr>prevF := curF s1\<rparr>
      in if \<not> triedLeftFromAnchor s2 \<and> curF s2 = 0 then
           (let s3 = s2\<lparr>hit_wall := True\<rparr>;
                s4 = controller_command_cell now (curA s3 - 1) (curF s3) s3
            in (False, log_printf LogHitLeftWall s4))
         else if \<not> triedUpFromAnchor s2 \<and> curA s2 = 0 then
           (let s3 = s2\<lparr>hit_wall := True\<rparr>;
                s4 = controller_command_cell now (curA s3) (curF s3 - 1) s3
            in (False, log_printf LogHitUpperWall s4))
         else if \<not> triedLeftFromAnchor s2 \<and> curF s2 > 0 then
           (let s3 = s2\<lparr>lastMoveDir := 1\<rparr>;
                s4 = s3\<lparr>triedLeftFromAnchor := True\<rparr>;
                s5 = log_printf (LogTryLeft (curA s4 + 1) (curF s4 + 1)) s4;
                s6 = controller_command_cell now (curA s5) (curF s5 - 1) s5;
                s7 = s6\<lparr>ctrl_lastBPM := bpm_now\<rparr>
            in (True, s7\<lparr>ctrl_lastCRY := cry_now\<rparr>))
         else if \<not> triedUpFromAnchor s2 \<and> curA s2 > 0 then
           (let s3 = s2\<lparr>lastMoveDir := 2\<rparr>;
                s4 = s3\<lparr>triedUpFromAnchor := True\<rparr>;
                s5 = log_printf (LogBlockedUp (curA s4 + 1) (curF s4 + 1)) s4;
                s6 = controller_command_cell now (curA s5 - 1) (curF s5) s5;
                s7 = s6\<lparr>ctrl_lastBPM := bpm_now\<rparr>
            in (True, s7\<lparr>ctrl_lastCRY := cry_now\<rparr>))
         else if curA s2 + 1 = 1 \<and> curF s2 + 1 = 1 then
           (let s3 = log_printf (LogCalmHolding (curA s2 + 1) (curF s2 + 1)) s2;
                s4 = s3\<lparr>ctrl_lastBPM := bpm_now\<rparr>
            in (True, s4\<lparr>ctrl_lastCRY := cry_now\<rparr>))
         else
           (let s3 = log_printf (LogFatalError (curA s2 + 1) (curF s2 + 1)) s2;
                s4 = s3\<lparr>ctrl_lastBPM := bpm_now\<rparr>
            in (True, s4\<lparr>ctrl_lastCRY := cry_now\<rparr>)))"

text \<open>Lines 693-736: the last move improved the vitals.\<close>

definition improved_move :: "int \<Rightarrow> int \<Rightarrow> int \<Rightarrow> ctrl \<Rightarrow> ctrl" where
  "improved_move now bpm_now cry_now s =
     (let anchorA = curA s;
          anchorF = curF s;
          s1 = log_printf (LogImproved (anchorA + 1) (anchorF + 1)) s;
          s2 = register_anchor anchorA anchorF s1;
          s3 = (if anchorA_mem s2 \<noteq> anchorA \<or> anchorF_mem s2 \<noteq> anchorF then
                  (let t1 = s2\<lparr>anchorA_mem := anchorA\<rparr>;
                       t2 = t1\<lparr>anchorF_mem := anchorF\<rparr>;
                       t3 = t2\<lparr>triedLeftFromAnchor := False\<rparr>
                   in t3\<lparr>triedUpFromAnchor := False\<rparr>)
                else s2);
          s4 = s3\<lparr>prevA := anchorA\<rparr>;
          s5 = s4\<lparr>prevF := anchorF\<rparr>;
          s6 = (if anchorF > 0 then
                  (let t1 = s5\<lparr>lastMoveDir := 1\<rparr>;
                       t2 = t1\<lparr>triedLeftFromAnchor := True\<rparr>;
                       t3 = log_printf (LogImprovedLeft (anchorA + 1) (anchorF + 1)) t2
                   in controller_command_cell now anchorA (anchorF - 1) t3)
                else if anchorA > 0 then
                  (let t1 = s5\<lparr>lastMoveDir := 2\<rparr>;
                       t2 = log_printf (LogImprovedUp (anchorA + 1) (anchorF + 1)) t1
                   in controller_command_cell now (anchorA - 1) anchorF t2)
                else s5);
          s7 = s6\<lparr>ctrl_lastBPM := bpm_now\<rparr>
      in s7\<lparr>ctrl_lastCRY := cry_now\<rparr>)"

text \<open>Lines 764-781: back to the remembered cell.\<close>

definition backtrack :: "int \<Rightarrow> int \<Rightarrow> int \<Rightarrow> ctrl \<Rightarrow> ctrl" where
  "backtrack now bpm_now cry_now s =
     (let anchorA = prevA s;
          anchorF = prevF s;
          s1 = (if anchorA \<noteq> curA s \<or> anchorF \<noteq> curF s then
                  controller_command_cell now anchorA anchorF
                    (log_printf (LogNoImprovement (anchorA + 1) (anchorF + 1)) s)
                else s);
          s2 = s1\<lparr>curA := anchorA\<rparr>;
          s3 = s2\<lparr>curF := anchorF\<rparr>;
          s4 = s3\<lparr>lastMoveDir := 0\<rparr>;
          s5 = s4\<lparr>ctrl_lastBPM := bpm_now\<rparr>
      in s5\<lparr>ctrl_lastCRY := cry_now\<rparr>)"

text \<open>Lines 737-782: no improvement; the reverse diagonal, or the way back.\<close>

definition unimproved_move :: "int \<Rightarrow> bool \<Rightarrow> int \<Rightarrow> int \<Rightarrow> ctrl \<Rightarrow> ctrl" where
  "unimproved_move now same bpm_now cry_now s =
     (if same \<and> lastMoveDir s = 1 \<and> prevA s > 0 then
        (let anchorA = prevA s;
             anchorF = prevF s;
             s1 = log_printf (LogSameRD (anchorA + 1) (anchorF + 1)) s;
             s2 = s1\<lparr>lastMoveDir := 2\<rparr>;
             s3 = s2\<lparr>triedUpFromAnchor := True\<rparr>;
             s4 = s3\<lparr>prevA := curA s3\<rparr>;
             s5 = s4\<lparr>prevF := curF s4\<rparr>;
             s6 = controller_command_cell now (anchorA - 1) anchorF s5;
             s7 = s6\<lparr>ctrl_lastBPM := bpm_now\<rparr>
         in s7\<lparr>ctrl_lastCRY := cry_now\<rparr>)
      else backtrack now bpm_now cry_now s)"

definition last_move :: "int \<Rightarrow> bool \<Rightarrow> bool \<Rightarrow> int \<Rightarrow> int \<Rightarrow> ctrl \<Rightarrow> ctrl" where
  "last_move now improved same bpm_now cry_now s =
     (if improved then improved_move now bpm_now cry_now s
      else unimproved_move now same bpm_now cry_now s)"

text \<open>
  Lines 533 and 566-624 for a step that stays out of panic mode: the state in which it
  reaches line 629.
\<close>

definition idle_chain_entry :: "int \<Rightarrow> int \<Rightarrow> ctrl \<Rightarrow> ctrl" where
  "idle_chain_entry bpm_now cry_now s =
     anchor_sync (snd (check_same bpm_now cry_now
       (snd (check_improved bpm_now cry_now (s\<lparr>hit_wall := False\<rparr>)))))"

text \<open>Lines 566-782: the step when panic mode is off.\<close>

definition normal_step :: "int \<Rightarrow> int \<Rightarrow> int \<Rightarrow> ctrl \<Rightarrow> ctrl" where
  "normal_step now bpm_now cry_now s =
     (case check_improved bpm_now cry_now s of (improved, s1) \<Rightarrow>
       (case check_same bpm_now cry_now s1 of (same, s2) \<Rightarrow>
         (let s3 = anchor_sync s2
          in (case (if lastMoveDir s3 = 0 then first_move now bpm_now cry_now s3 else (False, s3)) of
                (returned, s4) \<Rightarrow>
                  if returned then s4
                  else last_move now improved same bpm_now cry_now s4))))"

definition controller_step :: "int \<Rightarrow> int \<Rightarrow> int \<Rightarrow> ctrl \<Rightarrow> ctrl" where
  "controller_step now bpm_now cry_now s =
     (let s1 = s\<lparr>hit_wall := False\<rparr>;
          s2 = panic_detection bpm_now cry_now s1
      in if panic_mode s2 then
           (let s3 = controller_command_cell now 0 0 s2;
                s4 = s3\<lparr>ctrl_lastBPM := bpm_now\<rparr>
            in s4\<lparr>ctrl_lastCRY := cry_now\<rparr>)
         else normal_step now bpm_now cry_now s2)"

subsection \<open>Example states\<close>

text \<open>The receive-side globals as the program starts: zeroed, nothing in the FIFO.\<close>

definition rx_idle :: receiver where
  "rx_idle = \<lparr>uart_rx = [], g_src = 0, g_len = 0, g_payload = [0, 0, 0, 0, 0]\<rparr>"

subsection \<open>How the controller is started\<close>

text \<open>The initialisers of the file-scope variables (lines 32-37 and 405-435).\<close>

definition ctrl_boot :: ctrl where
  "ctrl_boot =
     \<lparr>g_amp = 0, g_freq = 0, curA = 4, curF = 4, is_crying_activated = False,
      ctrl_lastBPM = - 1, ctrl_lastCRY = - 1, prevA = - 1, prevF = - 1,
      anchorA_mem = - 1, anchorF_mem = - 1,
      triedLeftFromAnchor = False, triedUpFromAnchor = False,
      lastMoveDir = 0, hit_wall = False,
      anchorMatrix = [[0, 0, 0, 0, 0], [0, 0, 0, 0, 0], [0, 0, 0, 0, 0], [0, 0, 0, 0, 0],
                      [0, 0, 0, 0, 0]],
      anchorLevel = 0, panic_mode = False,
      g_algo_start_ms = 0, g_calm_reached = False, g_calm_elapsed_ms = 0,
      uart_tx = [], log_out = []\<rparr>"

text \<open>
  \<^verbatim>\<open>main\<close>, lines 1304-1311: the start of the decision mode. \<open>now\<close> is the clock
  reading stored in \<^verbatim>\<open>g_algo_start_ms\<close>.
\<close>

definition mode3_init :: "int \<Rightarrow> ctrl \<Rightarrow> ctrl" where
  "mode3_init now s =
     (let s1 = s\<lparr>curA := 4\<rparr>;
          s2 = s1\<lparr>curF := 4\<rparr>;
          s3 = s2\<lparr>prevA := curA s2\<rparr>;
          s4 = s3\<lparr>prevF := curF s3\<rparr>;
          s5 = s4\<lparr>lastMoveDir := 0\<rparr>;
          s6 = s5\<lparr>g_algo_start_ms := now\<rparr>;
          s7 = s6\<lparr>g_calm_reached := False\<rparr>
      in s7\<lparr>g_calm_elapsed_ms := 0\<rparr>)"

text \<open>
  \<^verbatim>\<open>main\<close>, lines 991-1012: the start of the manual demo mode. \<open>clock\<close> is read by
  \<^verbatim>\<open>controller_command_cell\<close> should it latch calm, \<open>now\<close> is stored in
  \<^verbatim>\<open>g_algo_start_ms\<close>.
\<close>

definition demo_init :: "int \<Rightarrow> int \<Rightarrow> ctrl \<Rightarrow> ctrl" where
  "demo_init clock now s =
     (let s1 = s\<lparr>curA := 4, curF := 4\<rparr>;
          s2 = s1\<lparr>prevA := curA s1, prevF := curF s1\<rparr>;
          s3 = s2\<lparr>lastMoveDir := 0, is_crying_activated := False,
                    ctrl_lastBPM := - 1, ctrl_lastCRY := - 1,
                    anchorA_mem := - 1, anchorF_mem := - 1,
                    triedLeftFromAnchor := False, triedUpFromAnchor := False\<rparr>;
          s4 = s3\<lparr>anchorMatrix := [[0, 0, 0, 0, 0], [0, 0, 0, 0, 0], [0, 0, 0, 0, 0],
                                     [0, 0, 0, 0, 0], [0, 0, 0, 0, 0]],
                    anchorLevel := 0, panic_mode := False\<rparr>;
          s5 = controller_command_cell clock (curA s4) (curF s4) s4
      in s5\<lparr>g_algo_start_ms := now, g_calm_reached := False, g_calm_elapsed_ms := 0\<rparr>)"

text \<open>
  The controller states a process can be in when \<^verbatim>\<open>controller_step\<close> is called: the
  demo mode starts from the initialisers; the decision mode starts after the boot pings
  and perhaps the communication demo, which have written to the UART and may have
  commanded the motor by hand; between two steps the loop sends its sensor requests.
\<close>

inductive reachable :: "ctrl \<Rightarrow> bool" where
  demo: "reachable (demo_init clock now ctrl_boot)"
| mode3: "reachable (mode3_init now (ctrl_boot\<lparr>g_amp := a, g_freq := f, uart_tx := tx\<rparr>))"
| step: "reachable s \<Longrightarrow> reachable (controller_step now bpm_now cry_now s)"
| bus: "reachable s \<Longrightarrow> reachable (s\<lparr>uart_tx := tx\<rparr>)"

subsection \<open>Runs\<close>

text \<open>
  The callers' loops (\<^verbatim>\<open>main\<close>, lines 1016-1121 and 1344-1466) call
  \<^verbatim>\<open>controller_step\<close> again and again; a run is the list of the clock readings
  and vitals of the successive calls.
\<close>

fun run :: "(int \<times> int \<times> int) list \<Rightarrow> ctrl \<Rightarrow> ctrl" where
  "run [] s = s"
| "run ((now, bpm_now, cry_now) # xs) s = run xs (controller_step now bpm_now cry_now s)"

subsection \<open>Predicates of the statements\<close>

text \<open>A cell of the 5 by 5 grid.\<close>

definition on_grid :: "int \<Rightarrow> int \<Rightarrow> bool" where
  "on_grid a f \<longleftrightarrow> 0 \<le> a \<and> a \<le> 4 \<and> 0 \<le> f \<and> f \<le> 4"

text \<open>
  The bytes that \<^verbatim>\<open>command_motor(a, f)\<close> writes (line 381-382): the frame
  \<^verbatim>\<open>{'M', amp, freq}\<close> from the master to the motor node.
\<close>

definition motor_frame :: "int \<Rightarrow> int \<Rightarrow> byte list" where
  "motor_frame a f = send_message MTR MSTR [0x4D, word_of_int a, word_of_int f] []"

text \<open>
  \<open>tx'\<close> is \<open>tx\<close> followed by motor frames only, each for a cell of the grid.
\<close>

definition emits_on_grid :: "byte list \<Rightarrow> byte list \<Rightarrow> bool" where
  "emits_on_grid tx tx' \<longleftrightarrow>
     (\<exists>cmds. tx' = tx @ concat (map (\<lambda>(a, f). motor_frame a f) cmds) \<and>
        (\<forall>(a, f)\<in>set cmds. on_grid a f))"

subsection \<open>The registry as the log shows it\<close>

text \<open>
  \<^verbatim>\<open>register_anchor\<close> prints a line for every registration (line 522), with the cell
  (one-based) and the level \<^verbatim>\<open>anchorLevel\<close>; the rank stored in \<^verbatim>\<open>anchorMatrix\<close>
  is 10 minus that level. The registrations of a log, in the order they were made, as
  (row, column, level) with the zero-based cell.
\<close>

fun registrations :: "log_line list \<Rightarrow> (int \<times> int \<times> int) list" where
  "registrations [] = []"
| "registrations (LogSetAnchor a f l # ls) = (a - 1, f - 1, l) # registrations ls"
| "registrations (_ # ls) = registrations ls"

text \<open>
  The cell \<open>(a0, f0)\<close> lies below every registered cell: its index sum is smaller, or it
  is that cell.
\<close>

definition below :: "int \<Rightarrow> int \<Rightarrow> (int \<times> int \<times> int) list \<Rightarrow> bool" where
  "below a0 f0 regs \<longleftrightarrow>
     (\<forall>(a, f, l)\<in>set regs. a0 + f0 \<le> a + f \<and> (a0 + f0 = a + f \<longrightarrow> a = a0 \<and> f = f0))"

text \<open>
  The matrix \<open>m\<close> and the level \<open>lev\<close> agree with the registrations \<open>regs\<close>: the levels
  count up from 1, a registered cell holds 10 minus its level, no other cell of the grid
  holds a rank, no cell occurs twice, and the level leaves room for the cells below the
  last one registered.
\<close>

definition registry_inv :: "int list list \<Rightarrow> int \<Rightarrow> (int \<times> int \<times> int) list \<Rightarrow> bool" where
  "registry_inv m lev regs \<longleftrightarrow>
     length m = 5 \<and> (\<forall>row\<in>set m. length row = 5) \<and>
     lev = int (length regs) \<and>
     map (\<lambda>(a, f, l). l) regs = map (\<lambda>i. int i + 1) [0..<length regs] \<and>
     (\<forall>(a, f, l)\<in>set regs. on_grid a f \<and> 1 \<le> l \<and> l \<le> lev \<and> m ! nat a ! nat f = 10 - l) \<and>
     (\<forall>a f. on_grid a f \<longrightarrow> m ! nat a ! nat f \<noteq> 0 \<longrightarrow>
        (a, f) \<in> (\<lambda>(a, f, l). (a, f)) ` set regs) \<and>
     distinct (map (\<lambda>(a, f, l). (a, f)) regs) \<and>
     (regs \<noteq> [] \<longrightarrow> (case last regs of (a, f, l) \<Rightarrow> lev + a + f \<le> 9))"

definition reg_ok :: "ctrl \<Rightarrow> bool" where
  "reg_ok s \<longleftrightarrow>
     on_grid (curA s) (curF s) \<and> below (curA s) (curF s) (registrations (log_out s)) \<and>
     registry_inv (anchorMatrix s) (anchorLevel s) (registrations (log_out s))"

definition anchors_inv :: "ctrl \<Rightarrow> bool" where
  "anchors_inv s \<longleftrightarrow>
     reg_ok s \<and> on_grid (prevA s) (prevF s) \<and>
     below (prevA s) (prevF s) (registrations (log_out s))"

subsection \<open>Example controller states\<close>

text \<open>
  The decision mode started at clock reading 1000 with a silent UART; the state after a
  first step with 100 bpm and crying level 90 (a move left, to cell (4,3)); and the
  state after a second step with 140 bpm, a jump of 40.
\<close>

definition ex_start :: ctrl where
  "ex_start = mode3_init 1000 ctrl_boot"

definition ex_moved_left :: ctrl where
  "ex_moved_left = controller_step 1500 100 90 ex_start"

definition ex_panicked :: ctrl where
  "ex_panicked = controller_step 2000 140 90 ex_moved_left"

text \<open>
  A run in which the heart rate (crying level 100 throughout, so the heartbeat regime)
  first fails to improve after the move left from (4,4), then improves after the moves
  to (3,4) and (3,3): the controller has moved left from the anchor (3,3) to (3,2) and
  waits for the next vitals.
\<close>

definition ex_left_of_33 :: ctrl where
  "ex_left_of_33 =
     run [(1500, 200, 100), (2500, 205, 100), (3500, 205, 100), (4500, 190, 100),
          (5500, 180, 100)] ex_start"

text \<open>
  A run in which the heart rate improves after each of four moves left along the bottom
  row and once more at (4,0), does not improve after the move up to (3,0), and the
  controller is back at (4,0), idle.
\<close>

definition ex_at_left_wall :: ctrl where
  "ex_at_left_wall =
     run [(1500, 200, 100), (2500, 190, 100), (3500, 180, 100), (4500, 170, 100),
          (5500, 160, 100), (6500, 160, 100)] ex_start"

text \<open>
  A run in which every move left fails and every move up improves the heart rate, up
  the right-hand column to (0,4); the move left from there to (0,3) fails too, and the
  controller is back at (0,4), idle, with Left tried and Up untried.
\<close>

definition ex_at_upper_wall :: ctrl where
  "ex_at_upper_wall =
     run [(1500, 200, 100), (2500, 205, 100), (3500, 205, 100), (4500, 190, 100),
          (5500, 195, 100), (6500, 195, 100), (7500, 180, 100), (8500, 185, 100),
          (9500, 185, 100), (10500, 170, 100), (11500, 175, 100), (12500, 175, 100),
          (13500, 160, 100), (14500, 165, 100)] ex_start"

section \<open>Framed transport\<close>

subsection \<open>What a frame is on the wire\<close>

lemma fold_uart_send:
  "n \<le> length payload \<Longrightarrow>
     fold (\<lambda>i. uart_send (payload ! i)) [0..<n] tx = tx @ take n payload"
proof (induction n)
  case 0
  then show ?case by simp
next
  case (Suc n)
  then show ?case by (simp add: uart_send_def take_Suc_conv_app_nth)
qed

lemma send_message_raw_bytes:
  "unat len \<le> length payload \<Longrightarrow>
     send_message_raw dst src payload len tx = tx @ [dst, src, len] @ take (unat len) payload"
  by (simp add: send_message_raw_def fold_uart_send) (simp add: uart_send_def)

lemma receive_byte_Cons:
  "uart_rx r = b # bs \<Longrightarrow> receive_byte r = (uint b, r\<lparr>uart_rx := bs\<rparr>)"
  by (simp add: receive_byte_def timeouted_byte_def TIMEOUT_def uart_has_data_def uart_recv_def)

lemma receive_byte_Nil:
  "uart_rx r = [] \<Longrightarrow> receive_byte r = (- 1, r)"
  by (simp add: receive_byte_def timeouted_byte_def TIMEOUT_def uart_has_data_def uart_recv_def)

lemma drain_payload_all:
  "n \<le> length (uart_rx r) \<Longrightarrow> drain_payload n r = r\<lparr>uart_rx := drop n (uart_rx r)\<rparr>"
proof (induction n arbitrary: r)
  case 0
  then show ?case by simp
next
  case (Suc n)
  then obtain b bs where rx: "uart_rx r = b # bs" by (cases "uart_rx r") auto
  with Suc show ?case by (simp add: receive_byte_Cons)
qed

lemma read_payload_complete:
  "i \<le> len \<Longrightarrow> len \<le> length (g_payload r) \<Longrightarrow> uart_rx r = bs @ rest \<Longrightarrow>
   length bs = len - i \<Longrightarrow>
     read_payload i len r =
       (True, r\<lparr>uart_rx := rest,
                g_payload := take i (g_payload r) @ bs @ drop len (g_payload r)\<rparr>)"
proof (induction i len r arbitrary: bs rule: read_payload.induct)
  case (1 i len r)
  show ?case
  proof (cases "i < len")
    case False
    with 1 show ?thesis by (subst read_payload.simps) simp
  next
    case True
    with 1(5) obtain b bs' where bs: "bs = b # bs'" by (cases bs) auto
    let ?r1 = "r\<lparr>uart_rx := bs' @ rest\<rparr>"
    let ?r2 = "?r1\<lparr>g_payload := (g_payload ?r1)[i := word_of_int (uint b)]\<rparr>"
    have rb: "receive_byte r = (uint b, ?r1)"
      using 1(4) bs by (simp add: receive_byte_Cons)
    have nonneg: "\<not> uint b < 0" by simp
    have ih: "read_payload (Suc i) len ?r2 =
       (True, ?r2\<lparr>uart_rx := rest,
                g_payload := take (Suc i) (g_payload ?r2) @ bs' @ drop len (g_payload ?r2)\<rparr>)"
      using 1(1) [OF True rb [symmetric] nonneg, of "bs'"] True 1(3) 1(5) bs by simp
    have upd: "take (Suc i) ((g_payload r)[i := b]) = take i (g_payload r) @ [b]"
      using True 1(3) by (simp add: take_Suc_conv_app_nth)
    have "read_payload i len r = read_payload (Suc i) len ?r2"
      using True rb by (subst read_payload.simps) simp
    also note ih
    finally show ?thesis using True upd by (simp add: bs)
  qed
qed

lemma read_payload_timeout:
  "length (uart_rx r) < len - i \<Longrightarrow> fst (read_payload i len r) = False"
proof (induction i len r rule: read_payload.induct)
  case (1 i len r)
  from 1(2) have lt: "i < len" by simp
  show ?case
  proof (cases "uart_rx r")
    case Nil
    then show ?thesis using lt by (subst read_payload.simps) (simp add: receive_byte_Nil)
  next
    case (Cons b bs)
    let ?r1 = "r\<lparr>uart_rx := bs\<rparr>"
    let ?r2 = "?r1\<lparr>g_payload := (g_payload ?r1)[i := word_of_int (uint b)]\<rparr>"
    have rb: "receive_byte r = (uint b, ?r1)" by (rule receive_byte_Cons [OF Cons])
    have nonneg: "\<not> uint b < 0" by simp
    have "fst (read_payload (Suc i) len ?r2) = False"
      using 1(1) [OF lt rb [symmetric] nonneg] 1(2) Cons by simp
    then show ?thesis using lt rb by (subst read_payload.simps) simp
  qed
qed

subsection \<open>The cases of \<^verbatim>\<open>receive_message\<close>\<close>

lemma receive_message_empty:
  "uart_rx r = [] \<Longrightarrow> receive_message r = (- 1, r)"
  by (simp add: receive_message_def uart_has_data_def)

lemma receive_message_header1:
  "uart_rx r = [d] \<Longrightarrow> receive_message r = (- 1, r\<lparr>uart_rx := []\<rparr>)"
  by (simp add: receive_message_def uart_has_data_def receive_byte_Cons receive_byte_Nil)

lemma receive_message_header2:
  "uart_rx r = [d, s] \<Longrightarrow> receive_message r = (- 1, r\<lparr>uart_rx := []\<rparr>)"
  by (simp add: receive_message_def uart_has_data_def receive_byte_Cons receive_byte_Nil)

lemma receive_message_other:
  assumes "uart_rx r = d # s # l # rest" "d \<noteq> MSTR" "unat l \<le> length rest"
  shows "receive_message r = (0, r\<lparr>uart_rx := drop (unat l) rest\<rparr>)"
  using assms
  by (simp add: receive_message_def uart_has_data_def receive_byte_Cons drain_payload_all)

lemma receive_message_for_me:
  assumes "uart_rx r = MSTR # s # l # rest"
  shows "receive_message r =
     (case read_payload 0 (unat (min l MAX_PAY)) (r\<lparr>uart_rx := rest\<rparr>) of (ok, r4) \<Rightarrow>
        if \<not> ok then (- 3, r4)
        else (uint (min l MAX_PAY), r4\<lparr>g_src := s, g_len := min l MAX_PAY\<rparr>))"
proof -
  have m: "(if MAX_PAY < l then MAX_PAY else l) = min l MAX_PAY"
    by (auto simp add: min_def dest: leD)
  show ?thesis
    using assms
    unfolding receive_message_def m Let_def
    by (auto simp add: uart_has_data_def receive_byte_Cons split: prod.splits)
qed

lemma min_len_le: "unat (min l MAX_PAY) \<le> unat MAX_PAY"
  by (simp add: word_le_nat_alt [symmetric])

lemma receive_message_addressed:
  assumes "uart_rx r = MSTR # s # l # pl @ rest" "length pl = unat (min l MAX_PAY)"
    "length (g_payload r) = unat MAX_PAY"
  shows "receive_message r =
     (uint (min l MAX_PAY),
      r\<lparr>uart_rx := rest, g_payload := pl @ drop (unat (min l MAX_PAY)) (g_payload r),
        g_src := s, g_len := min l MAX_PAY\<rparr>)"
proof -
  let ?r3 = "r\<lparr>uart_rx := pl @ rest\<rparr>"
  have rp: "read_payload 0 (unat (min l MAX_PAY)) ?r3 =
      (True, ?r3\<lparr>uart_rx := rest,
               g_payload := take 0 (g_payload ?r3) @ pl @ drop (unat (min l MAX_PAY)) (g_payload ?r3)\<rparr>)"
    by (rule read_payload_complete) (use assms min_len_le [of l] in simp_all)
  show ?thesis
    by (simp add: receive_message_for_me [OF assms(1)] rp)
qed

lemma receive_message_malformed:
  assumes "uart_rx r = MSTR # s # l # pl" "length pl < unat (min l MAX_PAY)"
  shows "fst (receive_message r) = - 3"
proof -
  let ?r3 = "r\<lparr>uart_rx := pl\<rparr>"
  have "fst (read_payload 0 (unat (min l MAX_PAY)) ?r3) = False"
    by (rule read_payload_timeout) (use assms in simp)
  then show ?thesis
    by (auto simp add: receive_message_for_me [OF assms(1)] split: prod.splits)
qed

lemma min_len_small: "unat len \<le> 5 \<Longrightarrow> min len MAX_PAY = len"
  by (simp add: min_def word_le_nat_alt MAX_PAY_def)

lemma frame_round_trip:
  assumes "unat len \<le> 5" and "unat len \<le> length payload"
    and "length (g_payload r) = unat MAX_PAY"
  shows "receive_message (r\<lparr>uart_rx := send_message_raw MSTR src payload len []\<rparr>) =
     (uint len,
      r\<lparr>uart_rx := [],
        g_payload := take (unat len) payload @ drop (unat len) (g_payload r),
        g_src := src, g_len := len\<rparr>)"
proof -
  let ?r = "r\<lparr>uart_rx := send_message_raw MSTR src payload len []\<rparr>"
  have rx: "uart_rx ?r = MSTR # src # len # take (unat len) payload @ []"
    using assms(2) by (simp add: send_message_raw_bytes)
  have "receive_message ?r =
     (uint (min len MAX_PAY),
      ?r\<lparr>uart_rx := [],
         g_payload := take (unat len) payload @ drop (unat (min len MAX_PAY)) (g_payload ?r),
         g_src := src, g_len := min len MAX_PAY\<rparr>)"
    by (rule receive_message_addressed [OF rx]) (use assms in \<open>simp_all add: min_len_small\<close>)
  then show ?thesis
    using assms(1) by (simp add: min_len_small)
qed

subsection \<open>Claims about the transport\<close>

text \<open>
  C7. Frame round trip. The only receiver in the source is the master: its
  \<^verbatim>\<open>receive_message\<close> compares the destination with \<^verbatim>\<open>MSTR\<close>. A frame written
  by \<^verbatim>\<open>send_message_raw\<close> to that address with a payload of \<open>L \<le> 5\<close> bytes, read
  back by \<^verbatim>\<open>receive_message\<close>, returns \<open>L\<close> and leaves the source in
  \<^verbatim>\<open>g_src\<close>, \<open>L\<close> in \<^verbatim>\<open>g_len\<close> and the payload bytes in the first \<open>L\<close> places of
  \<^verbatim>\<open>g_payload\<close>; the whole frame is consumed.
\<close>

theorem C7_frame_round_trip:
  assumes "dst = MSTR" and "unat len \<le> 5" and "unat len \<le> length payload"
    and "length (g_payload r) = unat MAX_PAY"
  shows "receive_message (r\<lparr>uart_rx := send_message_raw dst src payload len []\<rparr>) =
     (uint len,
      r\<lparr>uart_rx := [],
        g_payload := take (unat len) payload @ drop (unat len) (g_payload r),
        g_src := src, g_len := len\<rparr>)"
  using assms(1) frame_round_trip [OF assms(2-4)] by simp

theorem C7_frame_round_trip_witness:
  "receive_message (rx_idle\<lparr>uart_rx := send_message_raw MSTR 2 [0x43, 0x2A, 9] 2 []\<rparr>) =
     (2, \<lparr>uart_rx = [], g_src = 2, g_len = 2, g_payload = [0x43, 0x2A, 0, 0, 0]\<rparr>)"
  using C7_frame_round_trip [of MSTR 2 "[0x43, 0x2A, 9]" rx_idle 2]
  by (simp add: rx_idle_def MAX_PAY_def)

text \<open>
  C8. Framing alignment. With the frame \<open>[other, any, 2, 0xAA, 0xBB]\<close> for another node
  in front of a complete frame for the master, the first \<^verbatim>\<open>receive_message\<close>
  returns 0, consumes exactly the five bytes of the first frame and leaves
  \<^verbatim>\<open>g_src\<close>, \<^verbatim>\<open>g_len\<close> and \<^verbatim>\<open>g_payload\<close> as they were; the second call returns the
  second frame's length, source and payload.
\<close>

theorem C8_misaddressed_frame_skipped:
  assumes "other \<noteq> MSTR" and "unat len \<le> 5" and "unat len \<le> length payload"
    and "length (g_payload r) = unat MAX_PAY"
    and "uart_rx r = [other, any, 2, 0xAA, 0xBB] @ send_message_raw MSTR src payload len []"
  shows "receive_message r = (0, r\<lparr>uart_rx := send_message_raw MSTR src payload len []\<rparr>) \<and>
     receive_message (snd (receive_message r)) =
       (uint len,
        r\<lparr>uart_rx := [],
          g_payload := take (unat len) payload @ drop (unat len) (g_payload r),
          g_src := src, g_len := len\<rparr>)"
proof -
  let ?second = "send_message_raw MSTR src payload len []"
  have rx: "uart_rx r = other # any # 2 # ([0xAA, 0xBB] @ ?second)"
    using assms(5) by simp
  have first: "receive_message r = (0, r\<lparr>uart_rx := ?second\<rparr>)"
    using receive_message_other [OF rx assms(1)] by simp
  have "receive_message (r\<lparr>uart_rx := ?second\<rparr>) =
       (uint len,
        r\<lparr>uart_rx := [],
          g_payload := take (unat len) payload @ drop (unat len) (g_payload r),
          g_src := src, g_len := len\<rparr>)"
    by (rule frame_round_trip) (use assms in simp_all)
  with first show ?thesis by simp
qed

theorem C8_misaddressed_frame_skipped_witness:
  "receive_message (rx_idle\<lparr>uart_rx := [1, 0, 2, 0xAA, 0xBB, 0, 1, 2, 0x48, 0x78]\<rparr>) =
     (0, rx_idle\<lparr>uart_rx := [0, 1, 2, 0x48, 0x78]\<rparr>) \<and>
   receive_message (snd (receive_message (rx_idle\<lparr>uart_rx := [1, 0, 2, 0xAA, 0xBB, 0, 1, 2, 0x48, 0x78]\<rparr>))) =
     (2, \<lparr>uart_rx = [], g_src = 1, g_len = 2, g_payload = [0x48, 0x78, 0, 0, 0]\<rparr>)"
  using C8_misaddressed_frame_skipped
    [of 1 2 "[0x48, 0x78]" "rx_idle\<lparr>uart_rx := [1, 0, 2, 0xAA, 0xBB, 0, 1, 2, 0x48, 0x78]\<rparr>" 0 1]
  by (auto simp add: rx_idle_def MAX_PAY_def MSTR_def send_message_raw_bytes)

text \<open>
  C9. Errors of an addressed frame. When the destination byte is the master's address,
  the length byte is replaced by \<open>min len 5\<close> before the payload loop, so that many
  bytes and no more are consumed and stored, and that is the value returned; when the
  queue runs dry inside the payload the result is \<open>-3\<close>; when it runs dry inside the
  three header bytes (or is empty at the call) the result is \<open>-1\<close>.
\<close>

theorem C9_addressed_receive_errors:
  "(uart_rx r = MSTR # src # len # pl @ rest \<and> length pl = unat (min len MAX_PAY) \<and>
      length (g_payload r) = unat MAX_PAY \<longrightarrow>
      unat (min len MAX_PAY) \<le> 5 \<and>
      receive_message r =
        (uint (min len MAX_PAY),
         r\<lparr>uart_rx := rest, g_payload := pl @ drop (unat (min len MAX_PAY)) (g_payload r),
           g_src := src, g_len := min len MAX_PAY\<rparr>)) \<and>
   (uart_rx r = MSTR # src # len # pl \<and> length pl < unat (min len MAX_PAY) \<longrightarrow>
      fst (receive_message r) = - 3) \<and>
   (uart_rx r = [] \<or> uart_rx r = [d] \<or> uart_rx r = [d, src] \<longrightarrow>
      fst (receive_message r) = - 1)"
proof (intro conjI impI)
  assume "uart_rx r = MSTR # src # len # pl @ rest \<and> length pl = unat (min len MAX_PAY) \<and>
      length (g_payload r) = unat MAX_PAY"
  then show "receive_message r =
        (uint (min len MAX_PAY),
         r\<lparr>uart_rx := rest, g_payload := pl @ drop (unat (min len MAX_PAY)) (g_payload r),
           g_src := src, g_len := min len MAX_PAY\<rparr>)"
    by (intro receive_message_addressed) simp_all
next
  show "unat (min len MAX_PAY) \<le> 5"
    using min_len_le [of len] by (simp add: MAX_PAY_def)
next
  assume "uart_rx r = MSTR # src # len # pl \<and> length pl < unat (min len MAX_PAY)"
  then show "fst (receive_message r) = - 3"
    using receive_message_malformed [of r src len pl] by simp
next
  assume "uart_rx r = [] \<or> uart_rx r = [d] \<or> uart_rx r = [d, src]"
  then show "fst (receive_message r) = - 1"
    by (auto simp add: receive_message_empty receive_message_header1 receive_message_header2)
qed

theorem C9_addressed_receive_errors_witness:
  "receive_message (rx_idle\<lparr>uart_rx := [0, 1, 9, 1, 2, 3, 4, 5, 6, 7]\<rparr>) =
     (5, \<lparr>uart_rx = [6, 7], g_src = 1, g_len = 5, g_payload = [1, 2, 3, 4, 5]\<rparr>) \<and>
   fst (receive_message (rx_idle\<lparr>uart_rx := [0, 1, 9, 1, 2, 3]\<rparr>)) = - 3 \<and>
   fst (receive_message (rx_idle\<lparr>uart_rx := [0, 1]\<rparr>)) = - 1"
proof -
  have m: "min (9 :: byte) MAX_PAY = 5" by (simp add: MAX_PAY_def)
  show ?thesis
    using
      C9_addressed_receive_errors [of "rx_idle\<lparr>uart_rx := [0, 1, 9, 1, 2, 3, 4, 5, 6, 7]\<rparr>"
        1 9 "[1, 2, 3, 4, 5]" "[6, 7]" 0]
      C9_addressed_receive_errors [of "rx_idle\<lparr>uart_rx := [0, 1, 9, 1, 2, 3]\<rparr>"
        1 9 "[1, 2, 3]" "[]" 0]
      C9_addressed_receive_errors [of "rx_idle\<lparr>uart_rx := [0, 1]\<rparr>" 1 9 "[]" "[]" 0]
    by (simp add: m rx_idle_def MSTR_def MAX_PAY_def)
qed

section \<open>The controller\<close>

subsection \<open>The motor command as bytes and as state\<close>

lemma command_motor_eq:
  "command_motor amp freq s =
     s\<lparr>g_amp := amp, g_freq := freq, uart_tx := uart_tx s @ [MTR, MSTR, 3, 0x4D, amp, freq]\<rparr>"
  by (simp add: command_motor_def send_message_def send_message_raw_bytes)

lemma controller_command_cell_eq:
  "controller_command_cell now a f s =
     (let s3 = s\<lparr>curA := min 4 (max 0 a), curF := min 4 (max 0 f),
                   g_amp := word_of_int (min 4 (max 0 a)), g_freq := word_of_int (min 4 (max 0 f)),
                   uart_tx := uart_tx s @
                     [MTR, MSTR, 3, 0x4D, word_of_int (min 4 (max 0 a)), word_of_int (min 4 (max 0 f))]\<rparr>
      in if \<not> g_calm_reached s \<and> \<not> panic_mode s \<and> g_algo_start_ms s > 0 \<and> a \<le> 0 \<and> f \<le> 0
         then s3\<lparr>g_calm_reached := True, g_calm_elapsed_ms := now - g_algo_start_ms s,
                 log_out := log_out s @ [LogCalmReached (now - g_algo_start_ms s)]\<rparr>
         else s3)"
  by (simp add: controller_command_cell_def command_motor_eq log_printf_def Let_def min_def max_def)

subsection \<open>Unfolding a step on a concrete state\<close>

lemmas step_defs =
  controller_step_def panic_detection_def normal_step_def check_improved_def check_same_def
  anchor_sync_def first_move_def last_move_def improved_move_def unimproved_move_def
  backtrack_def register_anchor_def heartbeat_improved_def crying_improved_def
  controller_command_cell_def command_motor_eq log_printf_def thresholdBPM_def thresholdCRY_def Let_def

lemma ex_start_eq:
  "ex_start =
     \<lparr>g_amp = 0, g_freq = 0, curA = 4, curF = 4, is_crying_activated = False,
      ctrl_lastBPM = - 1, ctrl_lastCRY = - 1, prevA = 4, prevF = 4,
      anchorA_mem = - 1, anchorF_mem = - 1,
      triedLeftFromAnchor = False, triedUpFromAnchor = False,
      lastMoveDir = 0, hit_wall = False,
      anchorMatrix = [[0, 0, 0, 0, 0], [0, 0, 0, 0, 0], [0, 0, 0, 0, 0], [0, 0, 0, 0, 0],
                      [0, 0, 0, 0, 0]],
      anchorLevel = 0, panic_mode = False,
      g_algo_start_ms = 1000, g_calm_reached = False, g_calm_elapsed_ms = 0,
      uart_tx = [], log_out = []\<rparr>"
  by (simp add: ex_start_def mode3_init_def ctrl_boot_def)

lemma ex_moved_left_eq:
  "ex_moved_left =
     \<lparr>g_amp = 4, g_freq = 3, curA = 4, curF = 3, is_crying_activated = False,
      ctrl_lastBPM = 100, ctrl_lastCRY = 90, prevA = 4, prevF = 4,
      anchorA_mem = 4, anchorF_mem = 4,
      triedLeftFromAnchor = True, triedUpFromAnchor = False,
      lastMoveDir = 1, hit_wall = False,
      anchorMatrix = [[0, 0, 0, 0, 0], [0, 0, 0, 0, 0], [0, 0, 0, 0, 0], [0, 0, 0, 0, 0],
                      [0, 0, 0, 0, 9]],
      anchorLevel = 1, panic_mode = False,
      g_algo_start_ms = 1000, g_calm_reached = False, g_calm_elapsed_ms = 0,
      uart_tx = [3, 0, 3, 0x4D, 4, 3], log_out = [LogSetAnchor 5 5 1, LogTryLeft 5 5]\<rparr>"
  by (simp add: ex_moved_left_def ex_start_eq step_defs MTR_def MSTR_def)

lemma ex_panicked_eq:
  "ex_panicked =
     \<lparr>g_amp = 0, g_freq = 0, curA = 0, curF = 0, is_crying_activated = False,
      ctrl_lastBPM = 140, ctrl_lastCRY = 90, prevA = 4, prevF = 4,
      anchorA_mem = 4, anchorF_mem = 4,
      triedLeftFromAnchor = True, triedUpFromAnchor = False,
      lastMoveDir = 1, hit_wall = False,
      anchorMatrix = [[0, 0, 0, 0, 0], [0, 0, 0, 0, 0], [0, 0, 0, 0, 0], [0, 0, 0, 0, 0],
                      [0, 0, 0, 0, 9]],
      anchorLevel = 1, panic_mode = True,
      g_algo_start_ms = 1000, g_calm_reached = False, g_calm_elapsed_ms = 0,
      uart_tx = [3, 0, 3, 0x4D, 4, 3, 3, 0, 3, 0x4D, 0, 0],
      log_out = [LogSetAnchor 5 5 1, LogTryLeft 5 5, LogPanic 140 90]\<rparr>"
  by (simp add: ex_panicked_def ex_moved_left_eq step_defs MTR_def MSTR_def)

subsection \<open>Panic mode is only changed by the jump test\<close>

lemma panic_mode_controller_command_cell [simp]:
  "panic_mode (controller_command_cell now a f s) = panic_mode s"
  by (simp add: controller_command_cell_eq Let_def)

lemma panic_mode_log_printf [simp]: "panic_mode (log_printf l s) = panic_mode s"
  by (simp add: log_printf_def)

lemma panic_mode_register_anchor [simp]: "panic_mode (register_anchor a f s) = panic_mode s"
  by (simp add: register_anchor_def Let_def)

lemma panic_mode_check_improved [simp]:
  "panic_mode (snd (check_improved bpm_now cry_now s)) = panic_mode s"
  by (simp add: check_improved_def Let_def)

lemma panic_mode_check_same [simp]:
  "panic_mode (snd (check_same bpm_now cry_now s)) = panic_mode s"
  by (simp add: check_same_def Let_def)

lemma panic_mode_anchor_sync [simp]: "panic_mode (anchor_sync s) = panic_mode s"
  by (simp add: anchor_sync_def Let_def)

lemma panic_mode_first_move [simp]:
  "panic_mode (snd (first_move now bpm_now cry_now s)) = panic_mode s"
  by (simp add: first_move_def Let_def)

lemma panic_mode_last_move [simp]:
  "panic_mode (last_move now improved same bpm_now cry_now s) = panic_mode s"
  by (simp add: last_move_def improved_move_def unimproved_move_def backtrack_def Let_def)

lemma panic_mode_normal_step [simp]:
  "panic_mode (normal_step now bpm_now cry_now s) = panic_mode s"
proof -
  obtain improved s1 where ci: "check_improved bpm_now cry_now s = (improved, s1)"
    by (cases "check_improved bpm_now cry_now s")
  obtain same s2 where cs: "check_same bpm_now cry_now s1 = (same, s2)"
    by (cases "check_same bpm_now cry_now s1")
  obtain returned s4 where fm: "first_move now bpm_now cry_now (anchor_sync s2) = (returned, s4)"
    by (cases "first_move now bpm_now cry_now (anchor_sync s2)")
  have p1: "panic_mode s1 = panic_mode s"
    using panic_mode_check_improved [of bpm_now cry_now s] ci by simp
  have p2: "panic_mode s2 = panic_mode s1"
    using panic_mode_check_same [of bpm_now cry_now s1] cs by simp
  have p4: "panic_mode s4 = panic_mode s2"
    using panic_mode_first_move [of now bpm_now cry_now "anchor_sync s2"] fm by simp
  show ?thesis
    using p1 p2 p4 by (simp add: normal_step_def ci cs fm Let_def)
qed

subsection \<open>Panic mode\<close>

lemma panic_step_eq:
  "panic_mode s \<Longrightarrow>
     controller_step now bpm_now cry_now s =
       s\<lparr>hit_wall := False, curA := 0, curF := 0, g_amp := 0, g_freq := 0,
         uart_tx := uart_tx s @ [MTR, MSTR, 3, 0x4D, 0, 0],
         ctrl_lastBPM := bpm_now, ctrl_lastCRY := cry_now\<rparr>"
  by (simp add: controller_step_def panic_detection_def controller_command_cell_eq Let_def)

lemma panic_entry_eq:
  "\<not> panic_mode s \<Longrightarrow> 0 < ctrl_lastBPM s \<Longrightarrow> 30 \<le> bpm_now - ctrl_lastBPM s \<Longrightarrow>
     controller_step now bpm_now cry_now s =
       s\<lparr>hit_wall := False, panic_mode := True, log_out := log_out s @ [LogPanic bpm_now cry_now],
         curA := 0, curF := 0, g_amp := 0, g_freq := 0,
         uart_tx := uart_tx s @ [MTR, MSTR, 3, 0x4D, 0, 0],
         ctrl_lastBPM := bpm_now, ctrl_lastCRY := cry_now\<rparr>"
  by (simp add: controller_step_def panic_detection_def controller_command_cell_eq Let_def
      log_printf_def)

lemma no_panic_step_eq:
  "\<not> panic_mode s \<Longrightarrow> \<not> (0 < ctrl_lastBPM s \<and> 30 \<le> bpm_now - ctrl_lastBPM s) \<Longrightarrow>
     controller_step now bpm_now cry_now s = normal_step now bpm_now cry_now (s\<lparr>hit_wall := False\<rparr>)"
  by (auto simp add: controller_step_def panic_detection_def Let_def)

text \<open>Panic mode is set after a step exactly when the step went down the panic path.\<close>

lemma panic_after_step:
  assumes "panic_mode (controller_step now bpm_now cry_now s)"
  shows "panic_mode s \<or> (0 < ctrl_lastBPM s \<and> 30 \<le> bpm_now - ctrl_lastBPM s)"
proof (rule ccontr)
  assume n: "\<not> (panic_mode s \<or> (0 < ctrl_lastBPM s \<and> 30 \<le> bpm_now - ctrl_lastBPM s))"
  then have "controller_step now bpm_now cry_now s =
      normal_step now bpm_now cry_now (s\<lparr>hit_wall := False\<rparr>)"
    by (intro no_panic_step_eq) auto
  with assms n show False by simp
qed

lemma panic_mode_step_iff:
  "panic_mode (controller_step now bpm_now cry_now s) =
     (panic_mode s \<or> (0 < ctrl_lastBPM s \<and> 30 \<le> bpm_now - ctrl_lastBPM s))"
proof
  assume "panic_mode (controller_step now bpm_now cry_now s)"
  then show "panic_mode s \<or> (0 < ctrl_lastBPM s \<and> 30 \<le> bpm_now - ctrl_lastBPM s)"
    by (rule panic_after_step)
next
  assume "panic_mode s \<or> (0 < ctrl_lastBPM s \<and> 30 \<le> bpm_now - ctrl_lastBPM s)"
  then show "panic_mode (controller_step now bpm_now cry_now s)"
    by (cases "panic_mode s") (auto simp add: panic_step_eq panic_entry_eq)
qed

lemma panic_after_step_fields:
  assumes "panic_mode (controller_step now bpm_now cry_now s)"
  shows "\<not> hit_wall (controller_step now bpm_now cry_now s) \<and>
     curA (controller_step now bpm_now cry_now s) = 0 \<and>
     curF (controller_step now bpm_now cry_now s) = 0 \<and>
     g_amp (controller_step now bpm_now cry_now s) = 0 \<and>
     g_freq (controller_step now bpm_now cry_now s) = 0 \<and>
     g_calm_reached (controller_step now bpm_now cry_now s) = g_calm_reached s"
proof (cases "panic_mode s")
  case True
  then show ?thesis by (simp add: panic_step_eq)
next
  case False
  with panic_after_step [OF assms]
  have "0 < ctrl_lastBPM s" "30 \<le> bpm_now - ctrl_lastBPM s" by auto
  with False show ?thesis by (simp add: panic_entry_eq)
qed

lemma run_append: "run (xs @ ys) s = run ys (run xs s)"
  by (induction xs arbitrary: s) auto

lemma run_panic:
  "panic_mode s \<Longrightarrow>
     panic_mode (run xs s) \<and> g_calm_reached (run xs s) = g_calm_reached s \<and>
     uart_tx (run xs s) = uart_tx s @ concat (replicate (length xs) [MTR, MSTR, 3, 0x4D, 0, 0])"
proof (induction xs arbitrary: s)
  case Nil
  then show ?case by simp
next
  case (Cons x xs)
  obtain now bpm_now cry_now where x: "x = (now, bpm_now, cry_now)" by (cases x)
  let ?s1 = "controller_step now bpm_now cry_now s"
  have s1: "panic_mode ?s1" "g_calm_reached ?s1 = g_calm_reached s"
    "uart_tx ?s1 = uart_tx s @ [MTR, MSTR, 3, 0x4D, 0, 0]"
    using Cons.prems by (simp_all add: panic_step_eq)
  from Cons.IH [OF s1(1)] s1 show ?case by (simp add: x)
qed

text \<open>
  C1. Sticky panic. (a) With panic mode off, a recorded bpm above 0 and a rise of 30 or
  more, the step sets panic mode. (b) With panic mode on, whatever the inputs, the step
  is exactly: clear the per-call flag \<^verbatim>\<open>hit_wall\<close> (line 533), command cell (0,0)
  (current cell, last motor command and the six bytes of the motor frame), record bpm and
  cry; panic mode stays on and nothing else changes. (c) Panic mode is only ever set by a
  step, and in a state that a step left in panic mode \<^verbatim>\<open>hit_wall\<close> is already
  clear and the cell is already (0,0): there the next step changes the recorded bpm and
  cry and the bytes sent, and nothing else. (d) So every run from a state in panic mode
  stays in panic mode and sends one motor frame for cell (0,0) per step.
\<close>

theorem C1_sticky_panic:
  "(\<not> panic_mode s \<and> 0 < ctrl_lastBPM s \<and> 30 \<le> bpm_now - ctrl_lastBPM s \<longrightarrow>
      panic_mode (controller_step now bpm_now cry_now s)) \<and>
   (panic_mode s \<longrightarrow>
      panic_mode (controller_step now bpm_now cry_now s) \<and>
      controller_step now bpm_now cry_now s =
        s\<lparr>hit_wall := False, curA := 0, curF := 0, g_amp := 0, g_freq := 0,
          uart_tx := uart_tx s @ [MTR, MSTR, 3, 0x4D, 0, 0],
          ctrl_lastBPM := bpm_now, ctrl_lastCRY := cry_now\<rparr>) \<and>
   (panic_mode (controller_step now_before bpm_before cry_before s_before) \<longrightarrow>
      controller_step now bpm_now cry_now (controller_step now_before bpm_before cry_before s_before) =
        (controller_step now_before bpm_before cry_before s_before)
          \<lparr>uart_tx := uart_tx (controller_step now_before bpm_before cry_before s_before) @ [MTR, MSTR, 3, 0x4D, 0, 0],
           ctrl_lastBPM := bpm_now, ctrl_lastCRY := cry_now\<rparr>) \<and>
   (panic_mode s \<longrightarrow>
      panic_mode (run xs s) \<and>
      uart_tx (run xs s) = uart_tx s @ concat (replicate (length xs) [MTR, MSTR, 3, 0x4D, 0, 0]))"
proof (intro conjI impI)
  assume "\<not> panic_mode s \<and> 0 < ctrl_lastBPM s \<and> 30 \<le> bpm_now - ctrl_lastBPM s"
  then show "panic_mode (controller_step now bpm_now cry_now s)"
    by (simp add: panic_entry_eq)
next
  assume p: "panic_mode s"
  show "controller_step now bpm_now cry_now s =
        s\<lparr>hit_wall := False, curA := 0, curF := 0, g_amp := 0, g_freq := 0,
          uart_tx := uart_tx s @ [MTR, MSTR, 3, 0x4D, 0, 0],
          ctrl_lastBPM := bpm_now, ctrl_lastCRY := cry_now\<rparr>"
    by (rule panic_step_eq [OF p])
  then show "panic_mode (controller_step now bpm_now cry_now s)"
    using p by simp
next
  let ?s1 = "controller_step now_before bpm_before cry_before s_before"
  assume p: "panic_mode ?s1"
  have f: "\<not> hit_wall ?s1" "curA ?s1 = 0" "curF ?s1 = 0" "g_amp ?s1 = 0" "g_freq ?s1 = 0"
    using panic_after_step_fields [OF p] by simp_all
  have "?s1\<lparr>hit_wall := False, curA := 0, curF := 0, g_amp := 0, g_freq := 0\<rparr> = ?s1"
    using f by simp
  then show "controller_step now bpm_now cry_now ?s1 =
        ?s1\<lparr>uart_tx := uart_tx ?s1 @ [MTR, MSTR, 3, 0x4D, 0, 0],
           ctrl_lastBPM := bpm_now, ctrl_lastCRY := cry_now\<rparr>"
    using panic_step_eq [OF p, of now bpm_now cry_now] by simp
next
  assume p: "panic_mode s"
  show "panic_mode (run xs s)"
    using run_panic [OF p] by simp
  show "uart_tx (run xs s) = uart_tx s @ concat (replicate (length xs) [MTR, MSTR, 3, 0x4D, 0, 0])"
    using run_panic [OF p] by simp
qed

theorem C1_sticky_panic_witness:
  "panic_mode (controller_step 2000 140 90 ex_moved_left) \<and>
   panic_mode (controller_step 3000 60 0 ex_panicked) \<and>
   controller_step 3000 60 0 ex_panicked =
     ex_panicked\<lparr>uart_tx := uart_tx ex_panicked @ [3, 0, 3, 0x4D, 0, 0],
                 ctrl_lastBPM := 60, ctrl_lastCRY := 0\<rparr> \<and>
   panic_mode (run [(3000, 60, 0), (4000, 250, 100)] ex_panicked) \<and>
   uart_tx (run [(3000, 60, 0), (4000, 250, 100)] ex_panicked) =
     uart_tx ex_panicked @ [3, 0, 3, 0x4D, 0, 0, 3, 0, 3, 0x4D, 0, 0]"
proof -
  have a: "\<not> panic_mode ex_moved_left" "0 < ctrl_lastBPM ex_moved_left"
    "30 \<le> 140 - ctrl_lastBPM ex_moved_left"
    by (simp_all add: ex_moved_left_eq)
  have b: "panic_mode ex_panicked"
    by (simp add: ex_panicked_eq)
  note entry = C1_sticky_panic [where s = ex_moved_left and bpm_now = 140 and now = 2000
      and cry_now = 90]
  note sticky = C1_sticky_panic [where s = ex_panicked and bpm_now = 60 and now = 3000
      and cry_now = 0 and s_before = ex_moved_left and now_before = 2000 and bpm_before = 140
      and cry_before = 90 and xs = "[(3000, 60, 0), (4000, 250, 100)]",
      folded ex_panicked_def]
  from entry a have g1: "panic_mode (controller_step 2000 140 90 ex_moved_left)"
    by blast
  from sticky b have g2: "panic_mode (controller_step 3000 60 0 ex_panicked)"
    and g3: "controller_step 3000 60 0 ex_panicked =
      ex_panicked\<lparr>uart_tx := uart_tx ex_panicked @ [MTR, MSTR, 3, 0x4D, 0, 0],
                  ctrl_lastBPM := 60, ctrl_lastCRY := 0\<rparr>"
    and g4: "panic_mode (run [(3000, 60, 0), (4000, 250, 100)] ex_panicked)"
    and g5: "uart_tx (run [(3000, 60, 0), (4000, 250, 100)] ex_panicked) =
      uart_tx ex_panicked @
        concat (replicate (length [(3000 :: int, 60 :: int, 0 :: int), (4000, 250, 100)])
          [MTR, MSTR, 3, 0x4D, 0, 0])"
    by blast+
  have g5': "uart_tx (run [(3000, 60, 0), (4000, 250, 100)] ex_panicked) =
     uart_tx ex_panicked @ [3, 0, 3, 0x4D, 0, 0, 3, 0, 3, 0x4D, 0, 0]"
    unfolding g5 by (simp add: MTR_def MSTR_def numeral_2_eq_2)
  have g3': "controller_step 3000 60 0 ex_panicked =
     ex_panicked\<lparr>uart_tx := uart_tx ex_panicked @ [3, 0, 3, 0x4D, 0, 0],
                 ctrl_lastBPM := 60, ctrl_lastCRY := 0\<rparr>"
    unfolding g3 by (simp add: MTR_def MSTR_def)
  from g1 g2 g3' g4 g5' show ?thesis by blast
qed

text \<open>
  C10. Panic blocks the calm latch. \<^verbatim>\<open>controller_command_cell\<close> sets
  \<^verbatim>\<open>g_calm_reached\<close> only with panic mode off. A step that leaves panic mode set,
  taken with calm not yet latched, leaves it unlatched, and so does every run after it:
  panic mode stays set, calm stays unlatched, and what the run sends is one motor frame
  for cell (0,0) per step.
\<close>

theorem C10_panic_blocks_calm:
  "(\<not> g_calm_reached s \<and> g_calm_reached (controller_command_cell now a f s) \<longrightarrow>
      \<not> panic_mode s) \<and>
   (\<not> g_calm_reached s \<and> panic_mode (controller_step now bpm_now cry_now s) \<longrightarrow>
      panic_mode (run xs (controller_step now bpm_now cry_now s)) \<and>
      \<not> g_calm_reached (run xs (controller_step now bpm_now cry_now s)) \<and>
      uart_tx (run xs (controller_step now bpm_now cry_now s)) =
        uart_tx (controller_step now bpm_now cry_now s) @
          concat (replicate (length xs) [MTR, MSTR, 3, 0x4D, 0, 0]))"
proof (intro conjI impI)
  assume "\<not> g_calm_reached s \<and> g_calm_reached (controller_command_cell now a f s)"
  then show "\<not> panic_mode s"
    by (auto simp add: controller_command_cell_eq Let_def split: if_splits)
next
  let ?s1 = "controller_step now bpm_now cry_now s"
  assume h: "\<not> g_calm_reached s \<and> panic_mode ?s1"
  then have c1: "\<not> g_calm_reached ?s1"
    using panic_after_step_fields [of now bpm_now cry_now s] by simp
  from h have p1: "panic_mode ?s1" by simp
  show "panic_mode (run xs ?s1)"
    using run_panic [OF p1] by simp
  show "\<not> g_calm_reached (run xs ?s1)"
    using run_panic [OF p1, of xs] c1 by simp
  show "uart_tx (run xs ?s1) = uart_tx ?s1 @ concat (replicate (length xs) [MTR, MSTR, 3, 0x4D, 0, 0])"
    using run_panic [OF p1] by simp
qed

theorem C10_panic_blocks_calm_witness:
  "\<not> panic_mode ex_start \<and>
   g_calm_reached (controller_command_cell 1200 0 0 ex_start) \<and>
   panic_mode (run [(3000, 60, 0), (4000, 50, 0)] ex_panicked) \<and>
   \<not> g_calm_reached (run [(3000, 60, 0), (4000, 50, 0)] ex_panicked) \<and>
   uart_tx (run [(3000, 60, 0), (4000, 50, 0)] ex_panicked) =
     [3, 0, 3, 0x4D, 4, 3, 3, 0, 3, 0x4D, 0, 0, 3, 0, 3, 0x4D, 0, 0, 3, 0, 3, 0x4D, 0, 0]"
proof -
  have a: "\<not> g_calm_reached ex_start" "g_calm_reached (controller_command_cell 1200 0 0 ex_start)"
    by (simp_all add: ex_start_eq controller_command_cell_eq)
  have b: "\<not> g_calm_reached ex_moved_left" "panic_mode (controller_step 2000 140 90 ex_moved_left)"
    using ex_panicked_eq by (simp_all add: ex_moved_left_eq ex_panicked_def)
  show ?thesis
    using a b C10_panic_blocks_calm [where s = ex_start and now = 1200 and a = 0 and f = 0]
      C10_panic_blocks_calm [where s = ex_moved_left and now = 2000 and bpm_now = 140
        and cry_now = 90 and xs = "[(3000, 60, 0), (4000, 50, 0)]"]
    by (simp add: ex_panicked_def [symmetric] ex_panicked_eq MTR_def MSTR_def)
qed

subsection \<open>Fields that the sections of a step leave alone\<close>

lemma controller_command_cell_keeps [simp]:
  "is_crying_activated (controller_command_cell now a f s) = is_crying_activated s"
  "hit_wall (controller_command_cell now a f s) = hit_wall s"
  "prevA (controller_command_cell now a f s) = prevA s"
  "prevF (controller_command_cell now a f s) = prevF s"
  "lastMoveDir (controller_command_cell now a f s) = lastMoveDir s"
  "triedLeftFromAnchor (controller_command_cell now a f s) = triedLeftFromAnchor s"
  "triedUpFromAnchor (controller_command_cell now a f s) = triedUpFromAnchor s"
  "anchorMatrix (controller_command_cell now a f s) = anchorMatrix s"
  "anchorLevel (controller_command_cell now a f s) = anchorLevel s"
  "ctrl_lastBPM (controller_command_cell now a f s) = ctrl_lastBPM s"
  "ctrl_lastCRY (controller_command_cell now a f s) = ctrl_lastCRY s"
  by (simp_all add: controller_command_cell_eq Let_def)

lemma controller_command_cell_sets [simp]:
  "curA (controller_command_cell now a f s) = min 4 (max 0 a)"
  "curF (controller_command_cell now a f s) = min 4 (max 0 f)"
  "uart_tx (controller_command_cell now a f s) =
     uart_tx s @ [MTR, MSTR, 3, 0x4D, word_of_int (min 4 (max 0 a)), word_of_int (min 4 (max 0 f))]"
  by (simp_all add: controller_command_cell_eq Let_def)

lemma log_printf_keeps [simp]:
  "is_crying_activated (log_printf l s) = is_crying_activated s"
  "hit_wall (log_printf l s) = hit_wall s"
  "curA (log_printf l s) = curA s"
  "curF (log_printf l s) = curF s"
  "prevA (log_printf l s) = prevA s"
  "prevF (log_printf l s) = prevF s"
  "lastMoveDir (log_printf l s) = lastMoveDir s"
  "triedLeftFromAnchor (log_printf l s) = triedLeftFromAnchor s"
  "triedUpFromAnchor (log_printf l s) = triedUpFromAnchor s"
  "anchorA_mem (log_printf l s) = anchorA_mem s"
  "anchorF_mem (log_printf l s) = anchorF_mem s"
  "anchorMatrix (log_printf l s) = anchorMatrix s"
  "anchorLevel (log_printf l s) = anchorLevel s"
  "ctrl_lastBPM (log_printf l s) = ctrl_lastBPM s"
  "ctrl_lastCRY (log_printf l s) = ctrl_lastCRY s"
  "uart_tx (log_printf l s) = uart_tx s"
  "log_out (log_printf l s) = log_out s @ [l]"
  by (simp_all add: log_printf_def)

lemma register_anchor_keeps [simp]:
  "is_crying_activated (register_anchor a f s) = is_crying_activated s"
  "hit_wall (register_anchor a f s) = hit_wall s"
  "curA (register_anchor a f s) = curA s"
  "curF (register_anchor a f s) = curF s"
  "prevA (register_anchor a f s) = prevA s"
  "prevF (register_anchor a f s) = prevF s"
  "lastMoveDir (register_anchor a f s) = lastMoveDir s"
  "triedLeftFromAnchor (register_anchor a f s) = triedLeftFromAnchor s"
  "triedUpFromAnchor (register_anchor a f s) = triedUpFromAnchor s"
  "anchorA_mem (register_anchor a f s) = anchorA_mem s"
  "anchorF_mem (register_anchor a f s) = anchorF_mem s"
  "ctrl_lastBPM (register_anchor a f s) = ctrl_lastBPM s"
  "ctrl_lastCRY (register_anchor a f s) = ctrl_lastCRY s"
  "uart_tx (register_anchor a f s) = uart_tx s"
  by (simp_all add: register_anchor_def Let_def)

lemma check_improved_keeps [simp]:
  "hit_wall (snd (check_improved bpm_now cry_now s)) = hit_wall s"
  "curA (snd (check_improved bpm_now cry_now s)) = curA s"
  "curF (snd (check_improved bpm_now cry_now s)) = curF s"
  "prevA (snd (check_improved bpm_now cry_now s)) = prevA s"
  "prevF (snd (check_improved bpm_now cry_now s)) = prevF s"
  "lastMoveDir (snd (check_improved bpm_now cry_now s)) = lastMoveDir s"
  "triedLeftFromAnchor (snd (check_improved bpm_now cry_now s)) = triedLeftFromAnchor s"
  "triedUpFromAnchor (snd (check_improved bpm_now cry_now s)) = triedUpFromAnchor s"
  "anchorA_mem (snd (check_improved bpm_now cry_now s)) = anchorA_mem s"
  "anchorF_mem (snd (check_improved bpm_now cry_now s)) = anchorF_mem s"
  "anchorMatrix (snd (check_improved bpm_now cry_now s)) = anchorMatrix s"
  "anchorLevel (snd (check_improved bpm_now cry_now s)) = anchorLevel s"
  "ctrl_lastBPM (snd (check_improved bpm_now cry_now s)) = ctrl_lastBPM s"
  "ctrl_lastCRY (snd (check_improved bpm_now cry_now s)) = ctrl_lastCRY s"
  "uart_tx (snd (check_improved bpm_now cry_now s)) = uart_tx s"
  "log_out (snd (check_improved bpm_now cry_now s)) = log_out s"
  by (simp_all add: check_improved_def Let_def)

lemma check_same_keeps [simp]:
  "is_crying_activated (snd (check_same bpm_now cry_now s)) = is_crying_activated s"
  "hit_wall (snd (check_same bpm_now cry_now s)) = hit_wall s"
  "curA (snd (check_same bpm_now cry_now s)) = curA s"
  "curF (snd (check_same bpm_now cry_now s)) = curF s"
  "prevA (snd (check_same bpm_now cry_now s)) = prevA s"
  "prevF (snd (check_same bpm_now cry_now s)) = prevF s"
  "lastMoveDir (snd (check_same bpm_now cry_now s)) = lastMoveDir s"
  "triedLeftFromAnchor (snd (check_same bpm_now cry_now s)) = triedLeftFromAnchor s"
  "triedUpFromAnchor (snd (check_same bpm_now cry_now s)) = triedUpFromAnchor s"
  "anchorA_mem (snd (check_same bpm_now cry_now s)) = anchorA_mem s"
  "anchorF_mem (snd (check_same bpm_now cry_now s)) = anchorF_mem s"
  "anchorMatrix (snd (check_same bpm_now cry_now s)) = anchorMatrix s"
  "anchorLevel (snd (check_same bpm_now cry_now s)) = anchorLevel s"
  "ctrl_lastBPM (snd (check_same bpm_now cry_now s)) = ctrl_lastBPM s"
  "ctrl_lastCRY (snd (check_same bpm_now cry_now s)) = ctrl_lastCRY s"
  "uart_tx (snd (check_same bpm_now cry_now s)) = uart_tx s"
  by (simp_all add: check_same_def Let_def)

lemma anchor_sync_keeps [simp]:
  "is_crying_activated (anchor_sync s) = is_crying_activated s"
  "hit_wall (anchor_sync s) = hit_wall s"
  "curA (anchor_sync s) = curA s"
  "curF (anchor_sync s) = curF s"
  "prevA (anchor_sync s) = prevA s"
  "prevF (anchor_sync s) = prevF s"
  "lastMoveDir (anchor_sync s) = lastMoveDir s"
  "ctrl_lastBPM (anchor_sync s) = ctrl_lastBPM s"
  "ctrl_lastCRY (anchor_sync s) = ctrl_lastCRY s"
  "uart_tx (anchor_sync s) = uart_tx s"
  by (simp_all add: anchor_sync_def Let_def)

lemma first_move_keeps [simp]:
  "is_crying_activated (snd (first_move now bpm_now cry_now s)) = is_crying_activated s"
  by (simp add: first_move_def Let_def)

lemma last_move_keeps [simp]:
  "is_crying_activated (last_move now improved same bpm_now cry_now s) = is_crying_activated s"
  "hit_wall (last_move now improved same bpm_now cry_now s) = hit_wall s"
  by (simp_all add: last_move_def improved_move_def unimproved_move_def backtrack_def Let_def)

text \<open>The step with panic mode off, with the results of its sections named.\<close>

lemma normal_step_unfold:
  assumes "check_improved bpm_now cry_now s = (improved, s1)"
    and "check_same bpm_now cry_now s1 = (same, s2)"
  shows "normal_step now bpm_now cry_now s =
     (if lastMoveDir s = 0 then
        (if fst (first_move now bpm_now cry_now (anchor_sync s2))
         then snd (first_move now bpm_now cry_now (anchor_sync s2))
         else last_move now improved same bpm_now cry_now
                (snd (first_move now bpm_now cry_now (anchor_sync s2))))
      else last_move now improved same bpm_now cry_now s2)"
proof -
  have l1: "lastMoveDir s1 = lastMoveDir s"
    using check_improved_keeps(6) [of bpm_now cry_now s] assms(1) by simp
  have l2: "lastMoveDir s2 = lastMoveDir s1"
    using check_same_keeps(7) [of bpm_now cry_now s1] assms(2) by simp
  have as: "lastMoveDir s \<noteq> 0 \<Longrightarrow> anchor_sync s2 = s2"
    using l1 l2 by (simp add: anchor_sync_def)
  show ?thesis
    using l1 l2 as
    by (simp add: normal_step_def assms Let_def split: prod.splits)
qed

lemma is_crying_activated_normal_step:
  "is_crying_activated (normal_step now bpm_now cry_now s) =
     is_crying_activated (snd (check_improved bpm_now cry_now s))"
proof -
  obtain improved s1 where ci: "check_improved bpm_now cry_now s = (improved, s1)"
    by (cases "check_improved bpm_now cry_now s")
  obtain same s2 where cs: "check_same bpm_now cry_now s1 = (same, s2)"
    by (cases "check_same bpm_now cry_now s1")
  have c2: "is_crying_activated s2 = is_crying_activated s1"
    using check_same_keeps(1) [of bpm_now cry_now s1] cs by simp
  show ?thesis
    using c2 by (simp add: normal_step_unfold [OF ci cs] ci)
qed

subsection \<open>Regime and improvement\<close>

text \<open>
  C5. Regime selection and improvement predicate. \<open>check_improved\<close> is lines 569-581
  of \<^verbatim>\<open>controller_step\<close>; its first component is the local \<^verbatim>\<open>improved\<close>, which
  the rest of the step uses. The crying regime is chosen iff \<open>bpm_now < 150\<close> and
  \<open>15 < cry_now < 52\<close>; \<^verbatim>\<open>improved\<close> is then the crying test (\<open>cry_now \<le> 1\<close>, or a
  recorded cry above 0 that is at least 1 higher than \<open>cry_now\<close>), and otherwise the
  heartbeat test (a recorded bpm above 0 that is at least 10 higher than \<open>bpm_now\<close>).
  Whether a recorded cry of 0 counts as known makes no difference to the crying test.
  After a step that does not end in panic mode \<^verbatim>\<open>is_crying_activated\<close> tells the
  regime.
\<close>

theorem C5_regime_and_improvement:
  "is_crying_activated (snd (check_improved bpm_now cry_now s)) =
     (bpm_now < 150 \<and> 15 < cry_now \<and> cry_now < 52) \<and>
   fst (check_improved bpm_now cry_now s) =
     (if bpm_now < 150 \<and> 15 < cry_now \<and> cry_now < 52
      then cry_now \<le> 1 \<or> (0 < ctrl_lastCRY s \<and> 1 \<le> ctrl_lastCRY s - cry_now)
      else 0 < ctrl_lastBPM s \<and> 10 \<le> ctrl_lastBPM s - bpm_now) \<and>
   heartbeat_improved bpm_now s = (0 < ctrl_lastBPM s \<and> 10 \<le> ctrl_lastBPM s - bpm_now) \<and>
   crying_improved cry_now s =
     (cry_now \<le> 1 \<or> (0 < ctrl_lastCRY s \<and> 1 \<le> ctrl_lastCRY s - cry_now)) \<and>
   crying_improved cry_now s =
     (cry_now \<le> 1 \<or> (0 \<le> ctrl_lastCRY s \<and> 1 \<le> ctrl_lastCRY s - cry_now)) \<and>
   (\<not> panic_mode (controller_step now bpm_now cry_now s) \<longrightarrow>
      is_crying_activated (controller_step now bpm_now cry_now s) =
        (bpm_now < 150 \<and> 15 < cry_now \<and> cry_now < 52))"
proof (intro conjI impI)
  show "is_crying_activated (snd (check_improved bpm_now cry_now s)) =
     (bpm_now < 150 \<and> 15 < cry_now \<and> cry_now < 52)"
    by (auto simp add: check_improved_def Let_def)
  show "fst (check_improved bpm_now cry_now s) =
     (if bpm_now < 150 \<and> 15 < cry_now \<and> cry_now < 52
      then cry_now \<le> 1 \<or> (0 < ctrl_lastCRY s \<and> 1 \<le> ctrl_lastCRY s - cry_now)
      else 0 < ctrl_lastBPM s \<and> 10 \<le> ctrl_lastBPM s - bpm_now)"
    by (auto simp add: check_improved_def heartbeat_improved_def crying_improved_def
        thresholdBPM_def thresholdCRY_def Let_def)
  show "heartbeat_improved bpm_now s = (0 < ctrl_lastBPM s \<and> 10 \<le> ctrl_lastBPM s - bpm_now)"
    by (auto simp add: heartbeat_improved_def thresholdBPM_def)
  show "crying_improved cry_now s =
     (cry_now \<le> 1 \<or> (0 < ctrl_lastCRY s \<and> 1 \<le> ctrl_lastCRY s - cry_now))"
    by (auto simp add: crying_improved_def thresholdCRY_def)
  show "crying_improved cry_now s =
     (cry_now \<le> 1 \<or> (0 \<le> ctrl_lastCRY s \<and> 1 \<le> ctrl_lastCRY s - cry_now))"
    by (auto simp add: crying_improved_def thresholdCRY_def)
next
  assume np: "\<not> panic_mode (controller_step now bpm_now cry_now s)"
  then have a: "\<not> panic_mode s" "\<not> (0 < ctrl_lastBPM s \<and> 30 \<le> bpm_now - ctrl_lastBPM s)"
    by (simp_all add: panic_mode_step_iff)
  show "is_crying_activated (controller_step now bpm_now cry_now s) =
        (bpm_now < 150 \<and> 15 < cry_now \<and> cry_now < 52)"
    unfolding no_panic_step_eq [OF a] is_crying_activated_normal_step
    by (auto simp add: check_improved_def Let_def)
qed

theorem C5_regime_and_improvement_witness:
  "is_crying_activated (controller_step 1500 140 40 ex_start) \<and>
   \<not> is_crying_activated (controller_step 2500 90 90 ex_moved_left) \<and>
   fst (check_improved 90 90 ex_moved_left) \<and>
   \<not> fst (check_improved 95 90 ex_moved_left) \<and>
   fst (check_improved 100 40 ex_moved_left)"
  using
    C5_regime_and_improvement [where s = ex_start and bpm_now = 140 and cry_now = 40 and now = 1500]
    C5_regime_and_improvement [where s = ex_moved_left and bpm_now = 90 and cry_now = 90 and now = 2500]
    C5_regime_and_improvement [where s = ex_moved_left and bpm_now = 95 and cry_now = 90 and now = 2500]
    C5_regime_and_improvement [where s = ex_moved_left and bpm_now = 100 and cry_now = 40 and now = 2500]
  by (simp add: panic_mode_step_iff ex_start_eq ex_moved_left_eq)

subsection \<open>The way back after a move that did not help\<close>

lemma ex_left_of_33_eq:
  "ex_left_of_33 =
     \<lparr>g_amp = 3, g_freq = 2, curA = 3, curF = 2, is_crying_activated = False,
      ctrl_lastBPM = 180, ctrl_lastCRY = 100, prevA = 3, prevF = 3,
      anchorA_mem = 3, anchorF_mem = 3, triedLeftFromAnchor = True,
      triedUpFromAnchor = False, lastMoveDir = 1, hit_wall = False,
      anchorMatrix = [[0, 0, 0, 0, 0], [0, 0, 0, 0, 0], [0, 0, 0, 0, 0], [0, 0, 0, 7, 8],
                      [0, 0, 0, 0, 9]],
      anchorLevel = 3, panic_mode = False, g_algo_start_ms = 1000,
      g_calm_reached = False, g_calm_elapsed_ms = 0,
      uart_tx = [3, 0, 3, 77, 4, 3, 3, 0, 3, 77, 4, 4, 3, 0, 3, 77, 3, 4, 3, 0, 3, 77,
                 3, 3, 3, 0, 3, 77, 3, 2],
      log_out = [LogSetAnchor 5 5 1, LogTryLeft 5 5, LogNoImprovement 5 5,
                 LogHBStable 0, LogBlockedUp 5 5, LogImproved 4 5, LogSetAnchor 4 5 2,
                 LogImprovedLeft 4 5, LogImproved 4 4, LogSetAnchor 4 4 3,
                 LogImprovedLeft 4 4]\<rparr>"
  by (simp add: ex_left_of_33_def ex_start_eq step_defs MTR_def MSTR_def)

lemma check_improved_hit_wall:
  "check_improved bpm_now cry_now (s\<lparr>hit_wall := h\<rparr>) =
     (fst (check_improved bpm_now cry_now s), (snd (check_improved bpm_now cry_now s))\<lparr>hit_wall := h\<rparr>)"
  by (simp add: check_improved_def heartbeat_improved_def crying_improved_def Let_def)

lemma check_same_hit_wall:
  "check_same bpm_now cry_now (s\<lparr>hit_wall := h\<rparr>) =
     (fst (check_same bpm_now cry_now s), (snd (check_same bpm_now cry_now s))\<lparr>hit_wall := h\<rparr>)"
  by (simp add: check_same_def log_printf_def Let_def)

lemma backtrack_fields:
  "curA (backtrack now bpm_now cry_now s) = prevA s"
  "curF (backtrack now bpm_now cry_now s) = prevF s"
  "lastMoveDir (backtrack now bpm_now cry_now s) = 0"
  "ctrl_lastBPM (backtrack now bpm_now cry_now s) = bpm_now"
  "ctrl_lastCRY (backtrack now bpm_now cry_now s) = cry_now"
  "uart_tx (backtrack now bpm_now cry_now s) =
     uart_tx s @
       (if prevA s \<noteq> curA s \<or> prevF s \<noteq> curF s
        then [MTR, MSTR, 3, 0x4D, word_of_int (min 4 (max 0 (prevA s))),
              word_of_int (min 4 (max 0 (prevF s)))]
        else [])"
  by (simp_all add: backtrack_def Let_def)

text \<open>
  C6. No-improvement backtrack. The step is taken with panic mode off and no jump of 30,
  after a pending move (\<^verbatim>\<open>lastMoveDir\<close> is not 0), with the local \<^verbatim>\<open>improved\<close>
  false and the reverse diagonal not applicable (\<^verbatim>\<open>same\<close> false, or the move was not
  left, or the remembered row is 0), and the remembered cell on the grid. Then the step
  sends one motor frame for the remembered cell unless the current cell is already that
  cell, makes it the current cell, sets \<^verbatim>\<open>lastMoveDir\<close> to 0 and records bpm and cry.
\<close>

theorem C6_no_improvement_backtrack:
  assumes "\<not> panic_mode s"
    and "\<not> (0 < ctrl_lastBPM s \<and> 30 \<le> bpm_now - ctrl_lastBPM s)"
    and "lastMoveDir s \<noteq> 0"
    and "\<not> fst (check_improved bpm_now cry_now s)"
    and "\<not> (fst (check_same bpm_now cry_now (snd (check_improved bpm_now cry_now s))) \<and>
            lastMoveDir s = 1 \<and> 0 < prevA s)"
    and "0 \<le> prevA s \<and> prevA s \<le> 4 \<and> 0 \<le> prevF s \<and> prevF s \<le> 4"
  shows "uart_tx (controller_step now bpm_now cry_now s) =
       uart_tx s @
         (if prevA s \<noteq> curA s \<or> prevF s \<noteq> curF s
          then [MTR, MSTR, 3, 0x4D, word_of_int (prevA s), word_of_int (prevF s)]
          else []) \<and>
     curA (controller_step now bpm_now cry_now s) = prevA s \<and>
     curF (controller_step now bpm_now cry_now s) = prevF s \<and>
     lastMoveDir (controller_step now bpm_now cry_now s) = 0 \<and>
     ctrl_lastBPM (controller_step now bpm_now cry_now s) = bpm_now \<and>
     ctrl_lastCRY (controller_step now bpm_now cry_now s) = cry_now"
proof -
  let ?s0 = "s\<lparr>hit_wall := False\<rparr>"
  let ?s1 = "(snd (check_improved bpm_now cry_now s))\<lparr>hit_wall := False\<rparr>"
  let ?same = "fst (check_same bpm_now cry_now (snd (check_improved bpm_now cry_now s)))"
  let ?s2 = "(snd (check_same bpm_now cry_now (snd (check_improved bpm_now cry_now s))))\<lparr>hit_wall := False\<rparr>"
  have ci: "check_improved bpm_now cry_now ?s0 = (False, ?s1)"
    using assms(4) by (simp add: check_improved_hit_wall)
  have cs: "check_same bpm_now cry_now ?s1 = (?same, ?s2)"
    by (simp add: check_same_hit_wall)
  have "controller_step now bpm_now cry_now s = normal_step now bpm_now cry_now ?s0"
    by (rule no_panic_step_eq [OF assms(1,2)])
  also have "\<dots> = last_move now False ?same bpm_now cry_now ?s2"
    using assms(3) by (simp add: normal_step_unfold [OF ci cs])
  also have "\<dots> = backtrack now bpm_now cry_now ?s2"
    using assms(3,5) by (auto simp add: last_move_def unimproved_move_def)
  finally have eq: "controller_step now bpm_now cry_now s = backtrack now bpm_now cry_now ?s2" .
  have cl: "min 4 (max 0 (prevA s)) = prevA s" "min 4 (max 0 (prevF s)) = prevF s"
    using assms(6) by simp_all
  show ?thesis
    unfolding eq by (simp add: backtrack_fields cl)
qed

theorem C6_no_improvement_backtrack_witness:
  "lastMoveDir ex_left_of_33 = 1 \<and> prevA ex_left_of_33 = 3 \<and> prevF ex_left_of_33 = 3 \<and>
   ctrl_lastBPM ex_left_of_33 = 180 \<and>
   uart_tx (controller_step 6500 185 100 ex_left_of_33) =
     uart_tx ex_left_of_33 @ [3, 0, 3, 0x4D, 3, 3] \<and>
   curA (controller_step 6500 185 100 ex_left_of_33) = 3 \<and>
   curF (controller_step 6500 185 100 ex_left_of_33) = 3 \<and>
   lastMoveDir (controller_step 6500 185 100 ex_left_of_33) = 0 \<and>
   ctrl_lastBPM (controller_step 6500 185 100 ex_left_of_33) = 185 \<and>
   ctrl_lastCRY (controller_step 6500 185 100 ex_left_of_33) = 100"
proof -
  have h: "\<not> panic_mode ex_left_of_33"
    "\<not> (0 < ctrl_lastBPM ex_left_of_33 \<and> 30 \<le> 185 - ctrl_lastBPM ex_left_of_33)"
    "lastMoveDir ex_left_of_33 \<noteq> 0"
    "\<not> fst (check_improved 185 100 ex_left_of_33)"
    "\<not> (fst (check_same 185 100 (snd (check_improved 185 100 ex_left_of_33))) \<and>
            lastMoveDir ex_left_of_33 = 1 \<and> 0 < prevA ex_left_of_33)"
    "0 \<le> prevA ex_left_of_33 \<and> prevA ex_left_of_33 \<le> 4 \<and>
     0 \<le> prevF ex_left_of_33 \<and> prevF ex_left_of_33 \<le> 4"
    by (simp_all add: ex_left_of_33_eq check_improved_def check_same_def heartbeat_improved_def
        thresholdBPM_def Let_def)
  show ?thesis
    using C6_no_improvement_backtrack [OF h, of 6500]
    by (simp add: ex_left_of_33_eq MTR_def MSTR_def)
qed

subsection \<open>Commands and cells stay on the grid\<close>

lemma motor_frame_bytes:
  "motor_frame a f = [MTR, MSTR, 3, 0x4D, word_of_int a, word_of_int f]"
  by (simp add: motor_frame_def send_message_def send_message_raw_bytes)

lemma emits_on_grid_refl [simp]: "emits_on_grid tx tx"
  unfolding emits_on_grid_def by (rule exI [of _ "[]"]) simp

lemma emits_on_grid_trans:
  assumes "emits_on_grid tx1 tx2" and "emits_on_grid tx2 tx3"
  shows "emits_on_grid tx1 tx3"
proof -
  from assms(1) obtain c1 where c1: "tx2 = tx1 @ concat (map (\<lambda>(a, f). motor_frame a f) c1)"
    "\<forall>(a, f)\<in>set c1. on_grid a f"
    unfolding emits_on_grid_def by blast
  from assms(2) obtain c2 where c2: "tx3 = tx2 @ concat (map (\<lambda>(a, f). motor_frame a f) c2)"
    "\<forall>(a, f)\<in>set c2. on_grid a f"
    unfolding emits_on_grid_def by blast
  have "tx3 = tx1 @ concat (map (\<lambda>(a, f). motor_frame a f) (c1 @ c2))"
    using c1(1) c2(1) by simp
  moreover have "\<forall>(a, f)\<in>set (c1 @ c2). on_grid a f"
    using c1(2) c2(2) by auto
  ultimately show ?thesis
    unfolding emits_on_grid_def by blast
qed

lemma on_grid_clamped [simp]: "on_grid (min 4 (max 0 a)) (min 4 (max 0 f))"
  by (simp add: on_grid_def)

lemma emits_on_grid_cell:
  "emits_on_grid tx
     (tx @ [MTR, MSTR, 3, 0x4D, word_of_int (min 4 (max 0 a)), word_of_int (min 4 (max 0 f))])"
  unfolding emits_on_grid_def
  by (rule exI [of _ "[(min 4 (max 0 a), min 4 (max 0 f))]"]) (simp add: motor_frame_bytes)

lemma emits_controller_command_cell:
  "emits_on_grid tx (uart_tx s) \<Longrightarrow>
     emits_on_grid tx (uart_tx (controller_command_cell now a f s))"
  by (erule emits_on_grid_trans) (simp add: emits_on_grid_cell)

lemma emits_first_move:
  "emits_on_grid (uart_tx s) (uart_tx (snd (first_move now bpm_now cry_now s)))"
  by (simp add: first_move_def Let_def emits_controller_command_cell
      del: controller_command_cell_sets(3))

lemma emits_improved_move:
  "emits_on_grid (uart_tx s) (uart_tx (improved_move now bpm_now cry_now s))"
  by (simp add: improved_move_def Let_def emits_controller_command_cell
      del: controller_command_cell_sets(3))

lemma emits_unimproved_move:
  "emits_on_grid (uart_tx s) (uart_tx (unimproved_move now same bpm_now cry_now s))"
  by (simp add: unimproved_move_def backtrack_def Let_def emits_controller_command_cell
      del: controller_command_cell_sets(3))

lemma emits_last_move:
  "emits_on_grid (uart_tx s) (uart_tx (last_move now improved same bpm_now cry_now s))"
  by (simp add: last_move_def emits_improved_move emits_unimproved_move)

lemma emits_normal_step:
  "emits_on_grid (uart_tx s) (uart_tx (normal_step now bpm_now cry_now s))"
proof -
  obtain improved s1 where ci: "check_improved bpm_now cry_now s = (improved, s1)"
    by (cases "check_improved bpm_now cry_now s")
  obtain same s2 where cs: "check_same bpm_now cry_now s1 = (same, s2)"
    by (cases "check_same bpm_now cry_now s1")
  have t1: "uart_tx s1 = uart_tx s"
    using check_improved_keeps(15) [of bpm_now cry_now s] ci by simp
  have t2: "uart_tx s2 = uart_tx s"
    using check_same_keeps(16) [of bpm_now cry_now s1] cs t1 by simp
  let ?fm = "first_move now bpm_now cry_now (anchor_sync s2)"
  have f: "emits_on_grid (uart_tx s) (uart_tx (snd ?fm))"
    using emits_first_move [of "anchor_sync s2" now bpm_now cry_now] t2 by simp
  have fl: "emits_on_grid (uart_tx s) (uart_tx (last_move now improved same bpm_now cry_now (snd ?fm)))"
    by (rule emits_on_grid_trans [OF f emits_last_move])
  have l: "emits_on_grid (uart_tx s) (uart_tx (last_move now improved same bpm_now cry_now s2))"
    using emits_last_move [of s2] t2 by simp
  show ?thesis
    using f fl l by (simp add: normal_step_unfold [OF ci cs])
qed

lemma emits_controller_step:
  "emits_on_grid (uart_tx s) (uart_tx (controller_step now bpm_now cry_now s))"
proof (cases "panic_mode (controller_step now bpm_now cry_now s)")
  case True
  then have p: "panic_mode s \<or> (0 < ctrl_lastBPM s \<and> 30 \<le> bpm_now - ctrl_lastBPM s)"
    by (simp add: panic_mode_step_iff)
  have "uart_tx (controller_step now bpm_now cry_now s) =
      uart_tx s @ [MTR, MSTR, 3, 0x4D, word_of_int (min 4 (max 0 0)), word_of_int (min 4 (max 0 0))]"
    using p by (cases "panic_mode s") (auto simp add: panic_step_eq panic_entry_eq)
  then show ?thesis
    using emits_on_grid_cell [of "uart_tx s" 0 0] by simp
next
  case False
  then have a: "\<not> panic_mode s" "\<not> (0 < ctrl_lastBPM s \<and> 30 \<le> bpm_now - ctrl_lastBPM s)"
    by (simp_all add: panic_mode_step_iff)
  show ?thesis
    using emits_normal_step [of "s\<lparr>hit_wall := False\<rparr>" now bpm_now cry_now]
    by (simp add: no_panic_step_eq [OF a])
qed

text \<open>The current cell and the remembered cell stay on the grid.\<close>

lemma cells_first_move:
  assumes "on_grid (curA s) (curF s)"
  shows "on_grid (curA (snd (first_move now bpm_now cry_now s))) (curF (snd (first_move now bpm_now cry_now s))) \<and>
     on_grid (prevA (snd (first_move now bpm_now cry_now s))) (prevF (snd (first_move now bpm_now cry_now s)))"
  using assms by (simp add: first_move_def Let_def) (simp add: on_grid_def)

lemma cells_last_move:
  assumes "on_grid (curA s) (curF s)" and "on_grid (prevA s) (prevF s)"
  shows "on_grid (curA (last_move now improved same bpm_now cry_now s))
       (curF (last_move now improved same bpm_now cry_now s)) \<and>
     on_grid (prevA (last_move now improved same bpm_now cry_now s))
       (prevF (last_move now improved same bpm_now cry_now s))"
  using assms
  by (simp add: last_move_def improved_move_def unimproved_move_def backtrack_def Let_def)
     (simp add: on_grid_def)

lemma cells_normal_step:
  assumes "on_grid (curA s) (curF s)" and "on_grid (prevA s) (prevF s)"
  shows "on_grid (curA (normal_step now bpm_now cry_now s)) (curF (normal_step now bpm_now cry_now s)) \<and>
     on_grid (prevA (normal_step now bpm_now cry_now s)) (prevF (normal_step now bpm_now cry_now s))"
proof -
  obtain improved s1 where ci: "check_improved bpm_now cry_now s = (improved, s1)"
    by (cases "check_improved bpm_now cry_now s")
  obtain same s2 where cs: "check_same bpm_now cry_now s1 = (same, s2)"
    by (cases "check_same bpm_now cry_now s1")
  have k1: "curA s1 = curA s" "curF s1 = curF s" "prevA s1 = prevA s" "prevF s1 = prevF s"
    using check_improved_keeps(2-5) [of bpm_now cry_now s] ci by simp_all
  have k2: "curA s2 = curA s" "curF s2 = curF s" "prevA s2 = prevA s" "prevF s2 = prevF s"
    using check_same_keeps(3-6) [of bpm_now cry_now s1] cs k1 by simp_all
  let ?fm = "first_move now bpm_now cry_now (anchor_sync s2)"
  have f: "on_grid (curA (snd ?fm)) (curF (snd ?fm)) \<and> on_grid (prevA (snd ?fm)) (prevF (snd ?fm))"
    by (rule cells_first_move) (use assms k2 in simp)
  have fl: "on_grid (curA (last_move now improved same bpm_now cry_now (snd ?fm)))
       (curF (last_move now improved same bpm_now cry_now (snd ?fm))) \<and>
     on_grid (prevA (last_move now improved same bpm_now cry_now (snd ?fm)))
       (prevF (last_move now improved same bpm_now cry_now (snd ?fm)))"
    using f by (intro cells_last_move) simp_all
  have l: "on_grid (curA (last_move now improved same bpm_now cry_now s2))
       (curF (last_move now improved same bpm_now cry_now s2)) \<and>
     on_grid (prevA (last_move now improved same bpm_now cry_now s2))
       (prevF (last_move now improved same bpm_now cry_now s2))"
    by (rule cells_last_move) (use assms k2 in simp_all)
  show ?thesis
    using f fl l by (simp add: normal_step_unfold [OF ci cs])
qed

lemma cells_controller_step:
  assumes "on_grid (curA s) (curF s)" and "on_grid (prevA s) (prevF s)"
  shows "on_grid (curA (controller_step now bpm_now cry_now s)) (curF (controller_step now bpm_now cry_now s)) \<and>
     on_grid (prevA (controller_step now bpm_now cry_now s)) (prevF (controller_step now bpm_now cry_now s))"
proof (cases "panic_mode (controller_step now bpm_now cry_now s)")
  case True
  then have p: "panic_mode s \<or> (0 < ctrl_lastBPM s \<and> 30 \<le> bpm_now - ctrl_lastBPM s)"
    by (simp add: panic_mode_step_iff)
  then show ?thesis
    using assms(2) by (cases "panic_mode s") (auto simp add: panic_step_eq panic_entry_eq on_grid_def)
next
  case False
  then have a: "\<not> panic_mode s" "\<not> (0 < ctrl_lastBPM s \<and> 30 \<le> bpm_now - ctrl_lastBPM s)"
    by (simp_all add: panic_mode_step_iff)
  show ?thesis
    using cells_normal_step [of "s\<lparr>hit_wall := False\<rparr>" now bpm_now cry_now] assms
    by (simp add: no_panic_step_eq [OF a])
qed

lemma reachable_cells:
  "reachable s \<Longrightarrow> on_grid (curA s) (curF s) \<and> on_grid (prevA s) (prevF s)"
proof (induction rule: reachable.induct)
  case (demo clock now)
  show ?case by (simp add: demo_init_def ctrl_boot_def Let_def on_grid_def)
next
  case (mode3 now a f tx)
  show ?case by (simp add: mode3_init_def ctrl_boot_def Let_def on_grid_def)
next
  case (step s now bpm_now cry_now)
  then show ?case by (simp add: cells_controller_step)
next
  case (bus s tx)
  then show ?case by simp
qed

text \<open>
  C2. Range invariant. In every reachable state whose current cell is on the grid, a
  step sends nothing but motor frames, each for a cell with both indices in 0..4, and
  leaves the current cell on the grid.
\<close>

theorem C2_range_invariant:
  assumes "reachable s" and "0 \<le> curA s \<and> curA s \<le> 4 \<and> 0 \<le> curF s \<and> curF s \<le> 4"
  shows "(\<exists>cmds. uart_tx (controller_step now bpm_now cry_now s) =
              uart_tx s @ concat (map (\<lambda>(a, f). motor_frame a f) cmds) \<and>
            (\<forall>(a, f)\<in>set cmds. 0 \<le> a \<and> a \<le> 4 \<and> 0 \<le> f \<and> f \<le> 4)) \<and>
     0 \<le> curA (controller_step now bpm_now cry_now s) \<and>
     curA (controller_step now bpm_now cry_now s) \<le> 4 \<and>
     0 \<le> curF (controller_step now bpm_now cry_now s) \<and>
     curF (controller_step now bpm_now cry_now s) \<le> 4"
proof -
  have "emits_on_grid (uart_tx s) (uart_tx (controller_step now bpm_now cry_now s))"
    by (rule emits_controller_step)
  moreover have "on_grid (curA (controller_step now bpm_now cry_now s))
      (curF (controller_step now bpm_now cry_now s))"
    using reachable_cells [OF assms(1)] cells_controller_step [of s now bpm_now cry_now] by simp
  ultimately show ?thesis
    by (simp add: emits_on_grid_def on_grid_def)
qed

theorem C2_range_invariant_witness:
  "reachable ex_left_of_33 \<and> curA ex_left_of_33 = 3 \<and> curF ex_left_of_33 = 2 \<and>
   uart_tx (controller_step 6500 170 100 ex_left_of_33) =
     uart_tx ex_left_of_33 @ motor_frame 3 1 \<and>
   curA (controller_step 6500 170 100 ex_left_of_33) = 3 \<and>
   curF (controller_step 6500 170 100 ex_left_of_33) = 1"
proof -
  have r0: "reachable ex_start"
    using reachable.mode3 [where now = 1000 and a = 0 and f = 0 and tx = "[]"] by (simp add: ex_start_def ctrl_boot_def)
  have r: "reachable ex_left_of_33"
    unfolding ex_left_of_33_def using r0 by (auto intro!: reachable.step)
  have c: "0 \<le> curA ex_left_of_33 \<and> curA ex_left_of_33 \<le> 4 \<and>
      0 \<le> curF ex_left_of_33 \<and> curF ex_left_of_33 \<le> 4"
    by (simp add: ex_left_of_33_eq)
  have e: "uart_tx (controller_step 6500 170 100 ex_left_of_33) =
     uart_tx ex_left_of_33 @ motor_frame 3 1 \<and>
   curA (controller_step 6500 170 100 ex_left_of_33) = 3 \<and>
   curF (controller_step 6500 170 100 ex_left_of_33) = 1"
    by (simp add: ex_left_of_33_eq step_defs motor_frame_bytes)
  show ?thesis
    using C2_range_invariant [OF r c, of 6500 170 100] r e by (simp add: ex_left_of_33_eq)
qed

subsection \<open>Idle at the edge of the grid\<close>

lemma ex_at_left_wall_eq:
  "ex_at_left_wall =
     \<lparr>g_amp = 4, g_freq = 0, curA = 4, curF = 0, is_crying_activated = False,
      ctrl_lastBPM = 160, ctrl_lastCRY = 100, prevA = 4, prevF = 0,
      anchorA_mem = 4, anchorF_mem = 0, triedLeftFromAnchor = False,
      triedUpFromAnchor = False, lastMoveDir = 0, hit_wall = False,
      anchorMatrix = [[0, 0, 0, 0, 0], [0, 0, 0, 0, 0], [0, 0, 0, 0, 0], [0, 0, 0, 0, 0],
                      [5, 6, 7, 8, 9]],
      anchorLevel = 5, panic_mode = False, g_algo_start_ms = 1000,
      g_calm_reached = False, g_calm_elapsed_ms = 0,
      uart_tx = [3, 0, 3, 77, 4, 3, 3, 0, 3, 77, 4, 2, 3, 0, 3, 77, 4, 1, 3, 0, 3, 77,
                 4, 0, 3, 0, 3, 77, 3, 0, 3, 0, 3, 77, 4, 0],
      log_out = [LogSetAnchor 5 5 1, LogTryLeft 5 5, LogImproved 5 4,
                 LogSetAnchor 5 4 2, LogImprovedLeft 5 4, LogImproved 5 3,
                 LogSetAnchor 5 3 3, LogImprovedLeft 5 3, LogImproved 5 2,
                 LogSetAnchor 5 2 4, LogImprovedLeft 5 2, LogImproved 5 1,
                 LogSetAnchor 5 1 5, LogImprovedUp 5 1, LogHBStable 0,
                 LogNoImprovement 5 1]\<rparr>"
  by (simp add: ex_at_left_wall_def ex_start_eq step_defs MTR_def MSTR_def)

lemma ex_at_upper_wall_eq:
  "ex_at_upper_wall =
     \<lparr>g_amp = 0, g_freq = 4, curA = 0, curF = 4, is_crying_activated = False,
      ctrl_lastBPM = 165, ctrl_lastCRY = 100, prevA = 0, prevF = 4,
      anchorA_mem = 0, anchorF_mem = 4, triedLeftFromAnchor = True,
      triedUpFromAnchor = False, lastMoveDir = 0, hit_wall = False,
      anchorMatrix = [[0, 0, 0, 0, 5], [0, 0, 0, 0, 6], [0, 0, 0, 0, 7], [0, 0, 0, 0, 8],
                      [0, 0, 0, 0, 9]],
      anchorLevel = 5, panic_mode = False, g_algo_start_ms = 1000,
      g_calm_reached = False, g_calm_elapsed_ms = 0,
      uart_tx = [3, 0, 3, 77, 4, 3, 3, 0, 3, 77, 4, 4, 3, 0, 3, 77, 3, 4, 3, 0, 3, 77,
                 3, 3, 3, 0, 3, 77, 3, 4, 3, 0, 3, 77, 2, 4, 3, 0, 3, 77, 2, 3, 3, 0,
                 3, 77, 2, 4, 3, 0, 3, 77, 1, 4, 3, 0, 3, 77, 1, 3, 3, 0, 3, 77, 1, 4,
                 3, 0, 3, 77, 0, 4, 3, 0, 3, 77, 0, 3, 3, 0, 3, 77, 0, 4],
      log_out = [LogSetAnchor 5 5 1, LogTryLeft 5 5, LogNoImprovement 5 5,
                 LogHBStable 0, LogBlockedUp 5 5, LogImproved 4 5, LogSetAnchor 4 5 2,
                 LogImprovedLeft 4 5, LogNoImprovement 4 5, LogHBStable 0,
                 LogBlockedUp 4 5, LogImproved 3 5, LogSetAnchor 3 5 3,
                 LogImprovedLeft 3 5, LogNoImprovement 3 5, LogHBStable 0,
                 LogBlockedUp 3 5, LogImproved 2 5, LogSetAnchor 2 5 4,
                 LogImprovedLeft 2 5, LogNoImprovement 2 5, LogHBStable 0,
                 LogBlockedUp 2 5, LogImproved 1 5, LogSetAnchor 1 5 5,
                 LogImprovedLeft 1 5, LogNoImprovement 1 5]\<rparr>"
  by (simp add: ex_at_upper_wall_def ex_start_eq step_defs MTR_def MSTR_def)

lemma first_move_left_wall:
  assumes "\<not> triedLeftFromAnchor s" and "curF s = 0"
  shows "first_move now bpm_now cry_now s =
     (False,
      log_printf LogHitLeftWall
        (controller_command_cell now (curA s - 1) 0
           (s\<lparr>prevA := curA s, prevF := 0, hit_wall := True\<rparr>)))"
  using assms by (simp add: first_move_def Let_def)

lemma first_move_upper_wall:
  assumes "\<not> (\<not> triedLeftFromAnchor s \<and> curF s = 0)" and "\<not> triedUpFromAnchor s" and "curA s = 0"
  shows "first_move now bpm_now cry_now s =
     (False,
      log_printf LogHitUpperWall
        (controller_command_cell now 0 (curF s - 1)
           (s\<lparr>prevA := 0, prevF := curF s, hit_wall := True\<rparr>)))"
  using assms by (auto simp add: first_move_def Let_def)

lemma anchor_sync_tried:
  "triedLeftFromAnchor (anchor_sync s) =
     (triedLeftFromAnchor s \<and>
      \<not> (lastMoveDir s = 0 \<and> (anchorA_mem s \<noteq> curA s \<or> anchorF_mem s \<noteq> curF s)))"
  "triedUpFromAnchor (anchor_sync s) =
     (triedUpFromAnchor s \<and>
      \<not> (lastMoveDir s = 0 \<and> (anchorA_mem s \<noteq> curA s \<or> anchorF_mem s \<noteq> curF s)))"
  by (auto simp add: anchor_sync_def Let_def)

lemma length_motor_frame: "length (motor_frame a f) = 6"
  by (simp add: motor_frame_bytes)

lemma emits_on_grid_take:
  "emits_on_grid tx tx' \<Longrightarrow> take (length tx) tx' = tx"
  by (auto simp add: emits_on_grid_def)

text \<open>
  The step of an idle controller with panic mode off, up to the end of the chain of
  lines 629-689, when that chain is left without \<^verbatim>\<open>return\<close>.
\<close>

lemma idle_step_falls_through:
  assumes "\<not> panic_mode s" and "\<not> (0 < ctrl_lastBPM s \<and> 30 \<le> bpm_now - ctrl_lastBPM s)"
    and "lastMoveDir s = 0"
    and "sy = anchor_sync (snd (check_same bpm_now cry_now
              (snd (check_improved bpm_now cry_now (s\<lparr>hit_wall := False\<rparr>)))))"
    and "first_move now bpm_now cry_now sy = (False, sb)"
  shows "controller_step now bpm_now cry_now s =
     last_move now (fst (check_improved bpm_now cry_now s))
       (fst (check_same bpm_now cry_now (snd (check_improved bpm_now cry_now s))))
       bpm_now cry_now sb"
proof -
  let ?s0 = "s\<lparr>hit_wall := False\<rparr>"
  let ?improved = "fst (check_improved bpm_now cry_now s)"
  let ?s1 = "(snd (check_improved bpm_now cry_now s))\<lparr>hit_wall := False\<rparr>"
  let ?same = "fst (check_same bpm_now cry_now (snd (check_improved bpm_now cry_now s)))"
  let ?s2 = "(snd (check_same bpm_now cry_now (snd (check_improved bpm_now cry_now s))))\<lparr>hit_wall := False\<rparr>"
  have ci: "check_improved bpm_now cry_now ?s0 = (?improved, ?s1)"
    by (simp add: check_improved_hit_wall)
  have cs: "check_same bpm_now cry_now ?s1 = (?same, ?s2)"
    by (simp add: check_same_hit_wall)
  have sy: "sy = anchor_sync ?s2"
    using assms(4) by (simp add: ci cs)
  have "controller_step now bpm_now cry_now s = normal_step now bpm_now cry_now ?s0"
    by (rule no_panic_step_eq [OF assms(1,2)])
  also have "\<dots> = last_move now ?improved ?same bpm_now cry_now sb"
    using assms(3,5) sy by (simp add: normal_step_unfold [OF ci cs])
  finally show ?thesis .
qed

lemma idle_step_boundary:
  assumes "\<not> panic_mode s" and "\<not> (0 < ctrl_lastBPM s \<and> 30 \<le> bpm_now - ctrl_lastBPM s)"
    and "lastMoveDir s = 0"
    and "sy = anchor_sync (snd (check_same bpm_now cry_now
              (snd (check_improved bpm_now cry_now (s\<lparr>hit_wall := False\<rparr>)))))"
    and "first_move now bpm_now cry_now sy = (False, sb)"
    and "hit_wall sb" and "uart_tx sb = uart_tx s @ fr"
  shows "hit_wall (controller_step now bpm_now cry_now s) \<and>
     take (length (uart_tx s) + length fr) (uart_tx (controller_step now bpm_now cry_now s)) =
       uart_tx s @ fr"
proof -
  define improved where "improved = fst (check_improved bpm_now cry_now s)"
  define same where
    "same = fst (check_same bpm_now cry_now (snd (check_improved bpm_now cry_now s)))"
  have eq: "controller_step now bpm_now cry_now s = last_move now improved same bpm_now cry_now sb"
    unfolding improved_def same_def by (rule idle_step_falls_through [OF assms(1-5)])
  have "take (length (uart_tx sb)) (uart_tx (last_move now improved same bpm_now cry_now sb)) =
      uart_tx sb"
    by (rule emits_on_grid_take [OF emits_last_move])
  then show ?thesis
    unfolding eq using assms(6,7) by simp
qed

text \<open>
  C3, as the code has it. In the chain of lines 629-689 (\<open>first_move\<close>, entered when
  idle): with Left untried and \<open>curF = 0\<close> the first branch sets \<^verbatim>\<open>hit_wall\<close> and
  itself commands the cell one row up, \<open>(curA - 1, 0)\<close>, clamped to the grid; otherwise,
  with Up untried and \<open>curA = 0\<close>, the second branch sets \<^verbatim>\<open>hit_wall\<close> and itself
  commands the cell one column left, \<open>(0, curF - 1)\<close>, clamped. Neither branch returns,
  and neither goes on to another option of the chain: the tried flags and
  \<^verbatim>\<open>lastMoveDir\<close> are as they were.

  For the whole step, taken idle with panic mode off and no jump of 30, in either case:
  \<^verbatim>\<open>controller_step\<close> goes on at line 693, that is, its result is the pending-move
  evaluation \<open>last_move\<close> (with the locals \<^verbatim>\<open>improved\<close> and \<^verbatim>\<open>same\<close> of this
  step) applied to the state the boundary branch left; \<^verbatim>\<open>hit_wall\<close> is set at the
  end; and the first motor frame sent is the one of the boundary branch. At the start of
  a step a direction is untried when its flag is clear or the remembered anchor is not
  the current cell (lines 612-624 clear both flags then). \<open>idle_chain_entry\<close> is the
  state in which the step enters the chain.
\<close>

theorem C3_idle_boundary_commands:
  "(\<not> triedLeftFromAnchor s \<and> curF s = 0 \<longrightarrow>
      first_move now bpm_now cry_now s =
        (False,
         log_printf LogHitLeftWall
           (controller_command_cell now (curA s - 1) 0
              (s\<lparr>prevA := curA s, prevF := 0, hit_wall := True\<rparr>)))) \<and>
   (\<not> (\<not> triedLeftFromAnchor s \<and> curF s = 0) \<and> \<not> triedUpFromAnchor s \<and> curA s = 0 \<longrightarrow>
      first_move now bpm_now cry_now s =
        (False,
         log_printf LogHitUpperWall
           (controller_command_cell now 0 (curF s - 1)
              (s\<lparr>prevA := 0, prevF := curF s, hit_wall := True\<rparr>)))) \<and>
   (\<not> panic_mode s \<and> \<not> (0 < ctrl_lastBPM s \<and> 30 \<le> bpm_now - ctrl_lastBPM s) \<and>
    lastMoveDir s = 0 \<and>
    \<not> (triedLeftFromAnchor s \<and> anchorA_mem s = curA s \<and> anchorF_mem s = curF s) \<and>
    curF s = 0 \<longrightarrow>
      controller_step now bpm_now cry_now s =
        last_move now (fst (check_improved bpm_now cry_now s))
          (fst (check_same bpm_now cry_now (snd (check_improved bpm_now cry_now s))))
          bpm_now cry_now
          (log_printf LogHitLeftWall
             (controller_command_cell now (curA s - 1) 0
                ((idle_chain_entry bpm_now cry_now s)
                   \<lparr>prevA := curA s, prevF := 0, hit_wall := True\<rparr>))) \<and>
      hit_wall (controller_step now bpm_now cry_now s) \<and>
      take (length (uart_tx s) + 6) (uart_tx (controller_step now bpm_now cry_now s)) =
        uart_tx s @ motor_frame (min 4 (max 0 (curA s - 1))) 0) \<and>
   (\<not> panic_mode s \<and> \<not> (0 < ctrl_lastBPM s \<and> 30 \<le> bpm_now - ctrl_lastBPM s) \<and>
    lastMoveDir s = 0 \<and>
    ((triedLeftFromAnchor s \<and> anchorA_mem s = curA s \<and> anchorF_mem s = curF s) \<or> curF s \<noteq> 0) \<and>
    \<not> (triedUpFromAnchor s \<and> anchorA_mem s = curA s \<and> anchorF_mem s = curF s) \<and>
    curA s = 0 \<longrightarrow>
      controller_step now bpm_now cry_now s =
        last_move now (fst (check_improved bpm_now cry_now s))
          (fst (check_same bpm_now cry_now (snd (check_improved bpm_now cry_now s))))
          bpm_now cry_now
          (log_printf LogHitUpperWall
             (controller_command_cell now 0 (curF s - 1)
                ((idle_chain_entry bpm_now cry_now s)
                   \<lparr>prevA := 0, prevF := curF s, hit_wall := True\<rparr>))) \<and>
      hit_wall (controller_step now bpm_now cry_now s) \<and>
      take (length (uart_tx s) + 6) (uart_tx (controller_step now bpm_now cry_now s)) =
        uart_tx s @ motor_frame 0 (min 4 (max 0 (curF s - 1))))"
proof (intro conjI impI)
  assume "\<not> triedLeftFromAnchor s \<and> curF s = 0"
  then show "first_move now bpm_now cry_now s =
        (False,
         log_printf LogHitLeftWall
           (controller_command_cell now (curA s - 1) 0
              (s\<lparr>prevA := curA s, prevF := 0, hit_wall := True\<rparr>)))"
    by (simp add: first_move_left_wall)
next
  assume "\<not> (\<not> triedLeftFromAnchor s \<and> curF s = 0) \<and> \<not> triedUpFromAnchor s \<and> curA s = 0"
  then show "first_move now bpm_now cry_now s =
        (False,
         log_printf LogHitUpperWall
           (controller_command_cell now 0 (curF s - 1)
              (s\<lparr>prevA := 0, prevF := curF s, hit_wall := True\<rparr>)))"
    by (intro first_move_upper_wall) simp_all
next
  assume h: "\<not> panic_mode s \<and> \<not> (0 < ctrl_lastBPM s \<and> 30 \<le> bpm_now - ctrl_lastBPM s) \<and>
    lastMoveDir s = 0 \<and>
    \<not> (triedLeftFromAnchor s \<and> anchorA_mem s = curA s \<and> anchorF_mem s = curF s) \<and>
    curF s = 0"
  define sy where "sy = idle_chain_entry bpm_now cry_now s"
  define sb where "sb = log_printf LogHitLeftWall
           (controller_command_cell now (curA sy - 1) 0
              (sy\<lparr>prevA := curA sy, prevF := 0, hit_wall := True\<rparr>))"
  have sy': "sy = anchor_sync (snd (check_same bpm_now cry_now
              (snd (check_improved bpm_now cry_now (s\<lparr>hit_wall := False\<rparr>)))))"
    by (simp add: sy_def idle_chain_entry_def)
  have k: "\<not> triedLeftFromAnchor sy" "curF sy = 0" "curA sy = curA s" "uart_tx sy = uart_tx s"
    using h by (auto simp add: sy' anchor_sync_tried)
  have fm: "first_move now bpm_now cry_now sy = (False, sb)"
    unfolding sb_def by (rule first_move_left_wall [OF k(1,2)])
  have b: "hit_wall sb" "uart_tx sb = uart_tx s @ motor_frame (min 4 (max 0 (curA s - 1))) 0"
    using k by (simp_all add: sb_def motor_frame_bytes)
  have "controller_step now bpm_now cry_now s =
        last_move now (fst (check_improved bpm_now cry_now s))
          (fst (check_same bpm_now cry_now (snd (check_improved bpm_now cry_now s))))
          bpm_now cry_now sb"
    using h by (intro idle_step_falls_through [OF _ _ _ sy' fm]) simp_all
  then show "controller_step now bpm_now cry_now s =
        last_move now (fst (check_improved bpm_now cry_now s))
          (fst (check_same bpm_now cry_now (snd (check_improved bpm_now cry_now s))))
          bpm_now cry_now
          (log_printf LogHitLeftWall
             (controller_command_cell now (curA s - 1) 0
                ((idle_chain_entry bpm_now cry_now s)
                   \<lparr>prevA := curA s, prevF := 0, hit_wall := True\<rparr>)))"
    using k(3) by (simp add: sb_def sy_def)
  have "hit_wall (controller_step now bpm_now cry_now s) \<and>
     take (length (uart_tx s) + length (motor_frame (min 4 (max 0 (curA s - 1))) 0))
       (uart_tx (controller_step now bpm_now cry_now s)) =
       uart_tx s @ motor_frame (min 4 (max 0 (curA s - 1))) 0"
    using h by (intro idle_step_boundary [OF _ _ _ sy' fm b]) simp_all
  then show "hit_wall (controller_step now bpm_now cry_now s)"
    and "take (length (uart_tx s) + 6) (uart_tx (controller_step now bpm_now cry_now s)) =
        uart_tx s @ motor_frame (min 4 (max 0 (curA s - 1))) 0"
    by (simp_all add: length_motor_frame)
next
  assume h: "\<not> panic_mode s \<and> \<not> (0 < ctrl_lastBPM s \<and> 30 \<le> bpm_now - ctrl_lastBPM s) \<and>
    lastMoveDir s = 0 \<and>
    ((triedLeftFromAnchor s \<and> anchorA_mem s = curA s \<and> anchorF_mem s = curF s) \<or> curF s \<noteq> 0) \<and>
    \<not> (triedUpFromAnchor s \<and> anchorA_mem s = curA s \<and> anchorF_mem s = curF s) \<and>
    curA s = 0"
  define sy where "sy = idle_chain_entry bpm_now cry_now s"
  define sb where "sb = log_printf LogHitUpperWall
           (controller_command_cell now 0 (curF sy - 1)
              (sy\<lparr>prevA := 0, prevF := curF sy, hit_wall := True\<rparr>))"
  have sy': "sy = anchor_sync (snd (check_same bpm_now cry_now
              (snd (check_improved bpm_now cry_now (s\<lparr>hit_wall := False\<rparr>)))))"
    by (simp add: sy_def idle_chain_entry_def)
  have k: "\<not> (\<not> triedLeftFromAnchor sy \<and> curF sy = 0)" "\<not> triedUpFromAnchor sy" "curA sy = 0"
    "curF sy = curF s" "uart_tx sy = uart_tx s"
    using h by (auto simp add: sy' anchor_sync_tried)
  have fm: "first_move now bpm_now cry_now sy = (False, sb)"
    unfolding sb_def by (rule first_move_upper_wall [OF k(1,2,3)])
  have b: "hit_wall sb" "uart_tx sb = uart_tx s @ motor_frame 0 (min 4 (max 0 (curF s - 1)))"
    using k by (simp_all add: sb_def motor_frame_bytes)
  have "controller_step now bpm_now cry_now s =
        last_move now (fst (check_improved bpm_now cry_now s))
          (fst (check_same bpm_now cry_now (snd (check_improved bpm_now cry_now s))))
          bpm_now cry_now sb"
    using h by (intro idle_step_falls_through [OF _ _ _ sy' fm]) simp_all
  then show "controller_step now bpm_now cry_now s =
        last_move now (fst (check_improved bpm_now cry_now s))
          (fst (check_same bpm_now cry_now (snd (check_improved bpm_now cry_now s))))
          bpm_now cry_now
          (log_printf LogHitUpperWall
             (controller_command_cell now 0 (curF s - 1)
                ((idle_chain_entry bpm_now cry_now s)
                   \<lparr>prevA := 0, prevF := curF s, hit_wall := True\<rparr>)))"
    using k(4) by (simp add: sb_def sy_def)
  have "hit_wall (controller_step now bpm_now cry_now s) \<and>
     take (length (uart_tx s) + length (motor_frame 0 (min 4 (max 0 (curF s - 1)))))
       (uart_tx (controller_step now bpm_now cry_now s)) =
       uart_tx s @ motor_frame 0 (min 4 (max 0 (curF s - 1)))"
    using h by (intro idle_step_boundary [OF _ _ _ sy' fm b]) simp_all
  then show "hit_wall (controller_step now bpm_now cry_now s)"
    and "take (length (uart_tx s) + 6) (uart_tx (controller_step now bpm_now cry_now s)) =
        uart_tx s @ motor_frame 0 (min 4 (max 0 (curF s - 1)))"
    by (simp_all add: length_motor_frame)
qed

theorem C3_idle_boundary_commands_witness:
  "first_move 7500 160 100 ex_at_left_wall =
     (False,
      ex_at_left_wall\<lparr>hit_wall := True, curA := 3, g_amp := 3,
        uart_tx := uart_tx ex_at_left_wall @ [3, 0, 3, 0x4D, 3, 0],
        log_out := log_out ex_at_left_wall @ [LogHitLeftWall]\<rparr>) \<and>
   controller_step 7500 160 100 ex_at_left_wall =
     last_move 7500 False False 160 100
       (ex_at_left_wall\<lparr>hit_wall := True, curA := 3, g_amp := 3,
          uart_tx := uart_tx ex_at_left_wall @ [3, 0, 3, 0x4D, 3, 0],
          log_out := log_out ex_at_left_wall @ [LogHBStable 0, LogHitLeftWall]\<rparr>) \<and>
   hit_wall (controller_step 7500 160 100 ex_at_left_wall) \<and>
   take 42 (uart_tx (controller_step 7500 160 100 ex_at_left_wall)) =
     uart_tx ex_at_left_wall @ [3, 0, 3, 0x4D, 3, 0] \<and>
   uart_tx (controller_step 7500 160 100 ex_at_left_wall) =
     uart_tx ex_at_left_wall @ [3, 0, 3, 0x4D, 3, 0, 3, 0, 3, 0x4D, 4, 0] \<and>
   first_move 15500 165 100 ex_at_upper_wall =
     (False,
      ex_at_upper_wall\<lparr>hit_wall := True, curF := 3, g_freq := 3,
        uart_tx := uart_tx ex_at_upper_wall @ [3, 0, 3, 0x4D, 0, 3],
        log_out := log_out ex_at_upper_wall @ [LogHitUpperWall]\<rparr>) \<and>
   controller_step 15500 165 100 ex_at_upper_wall =
     last_move 15500 False False 165 100
       (ex_at_upper_wall\<lparr>hit_wall := True, curF := 3, g_freq := 3,
          uart_tx := uart_tx ex_at_upper_wall @ [3, 0, 3, 0x4D, 0, 3],
          log_out := log_out ex_at_upper_wall @ [LogHBStable 0, LogHitUpperWall]\<rparr>) \<and>
   hit_wall (controller_step 15500 165 100 ex_at_upper_wall) \<and>
   take 90 (uart_tx (controller_step 15500 165 100 ex_at_upper_wall)) =
     uart_tx ex_at_upper_wall @ [3, 0, 3, 0x4D, 0, 3] \<and>
   uart_tx (controller_step 15500 165 100 ex_at_upper_wall) =
     uart_tx ex_at_upper_wall @ [3, 0, 3, 0x4D, 0, 3, 3, 0, 3, 0x4D, 0, 4]"
proof -
  note left = C3_idle_boundary_commands [where s = ex_at_left_wall and now = 7500
      and bpm_now = 160 and cry_now = 100]
  note upper = C3_idle_boundary_commands [where s = ex_at_upper_wall and now = 15500
      and bpm_now = 165 and cry_now = 100]
  have evl: "fst (check_improved 160 100 ex_at_left_wall) = False"
    "fst (check_same 160 100 (snd (check_improved 160 100 ex_at_left_wall))) = False"
    "idle_chain_entry 160 100 ex_at_left_wall =
       ex_at_left_wall\<lparr>log_out := log_out ex_at_left_wall @ [LogHBStable 0]\<rparr>"
    by (simp_all add: ex_at_left_wall_eq idle_chain_entry_def check_improved_def check_same_def
        anchor_sync_def heartbeat_improved_def thresholdBPM_def log_printf_def Let_def)
  have evu: "fst (check_improved 165 100 ex_at_upper_wall) = False"
    "fst (check_same 165 100 (snd (check_improved 165 100 ex_at_upper_wall))) = False"
    "idle_chain_entry 165 100 ex_at_upper_wall =
       ex_at_upper_wall\<lparr>log_out := log_out ex_at_upper_wall @ [LogHBStable 0]\<rparr>"
    by (simp_all add: ex_at_upper_wall_eq idle_chain_entry_def check_improved_def check_same_def
        anchor_sync_def heartbeat_improved_def thresholdBPM_def log_printf_def Let_def)
  have hl1: "\<not> triedLeftFromAnchor ex_at_left_wall \<and> curF ex_at_left_wall = 0"
    by (simp add: ex_at_left_wall_eq)
  have hl3: "\<not> panic_mode ex_at_left_wall \<and>
      \<not> (0 < ctrl_lastBPM ex_at_left_wall \<and> 30 \<le> 160 - ctrl_lastBPM ex_at_left_wall) \<and>
      lastMoveDir ex_at_left_wall = 0 \<and>
      \<not> (triedLeftFromAnchor ex_at_left_wall \<and> anchorA_mem ex_at_left_wall = curA ex_at_left_wall \<and>
          anchorF_mem ex_at_left_wall = curF ex_at_left_wall) \<and>
      curF ex_at_left_wall = 0"
    by (simp add: ex_at_left_wall_eq)
  have hu2: "\<not> (\<not> triedLeftFromAnchor ex_at_upper_wall \<and> curF ex_at_upper_wall = 0) \<and>
      \<not> triedUpFromAnchor ex_at_upper_wall \<and> curA ex_at_upper_wall = 0"
    by (simp add: ex_at_upper_wall_eq)
  have hu4: "\<not> panic_mode ex_at_upper_wall \<and>
      \<not> (0 < ctrl_lastBPM ex_at_upper_wall \<and> 30 \<le> 165 - ctrl_lastBPM ex_at_upper_wall) \<and>
      lastMoveDir ex_at_upper_wall = 0 \<and>
      ((triedLeftFromAnchor ex_at_upper_wall \<and> anchorA_mem ex_at_upper_wall = curA ex_at_upper_wall \<and>
        anchorF_mem ex_at_upper_wall = curF ex_at_upper_wall) \<or> curF ex_at_upper_wall \<noteq> 0) \<and>
      \<not> (triedUpFromAnchor ex_at_upper_wall \<and> anchorA_mem ex_at_upper_wall = curA ex_at_upper_wall \<and>
          anchorF_mem ex_at_upper_wall = curF ex_at_upper_wall) \<and>
      curA ex_at_upper_wall = 0"
    by (simp add: ex_at_upper_wall_eq)
  note l1 = left [THEN conjunct1, THEN mp, OF hl1]
  note l3 = left [THEN conjunct2, THEN conjunct2, THEN conjunct1, THEN mp, OF hl3]
  note u2 = upper [THEN conjunct2, THEN conjunct1, THEN mp, OF hu2]
  note u4 = upper [THEN conjunct2, THEN conjunct2, THEN conjunct2, THEN mp, OF hu4]
  have a1: "first_move 7500 160 100 ex_at_left_wall =
     (False,
      ex_at_left_wall\<lparr>hit_wall := True, curA := 3, g_amp := 3,
        uart_tx := uart_tx ex_at_left_wall @ [3, 0, 3, 0x4D, 3, 0],
        log_out := log_out ex_at_left_wall @ [LogHitLeftWall]\<rparr>)"
    unfolding l1
    by (simp add: ex_at_left_wall_eq controller_command_cell_eq log_printf_def MTR_def MSTR_def)
  have a2: "controller_step 7500 160 100 ex_at_left_wall =
     last_move 7500 False False 160 100
       (ex_at_left_wall\<lparr>hit_wall := True, curA := 3, g_amp := 3,
          uart_tx := uart_tx ex_at_left_wall @ [3, 0, 3, 0x4D, 3, 0],
          log_out := log_out ex_at_left_wall @ [LogHBStable 0, LogHitLeftWall]\<rparr>)"
    unfolding l3 [THEN conjunct1] evl
    by (simp add: ex_at_left_wall_eq controller_command_cell_eq log_printf_def MTR_def MSTR_def)
  have a3: "hit_wall (controller_step 7500 160 100 ex_at_left_wall)"
    by (rule l3 [THEN conjunct2, THEN conjunct1])
  have a4: "take 42 (uart_tx (controller_step 7500 160 100 ex_at_left_wall)) =
     uart_tx ex_at_left_wall @ [3, 0, 3, 0x4D, 3, 0]"
    using l3 [THEN conjunct2, THEN conjunct2]
    by (simp add: ex_at_left_wall_eq motor_frame_bytes MTR_def MSTR_def)
  have b1: "first_move 15500 165 100 ex_at_upper_wall =
     (False,
      ex_at_upper_wall\<lparr>hit_wall := True, curF := 3, g_freq := 3,
        uart_tx := uart_tx ex_at_upper_wall @ [3, 0, 3, 0x4D, 0, 3],
        log_out := log_out ex_at_upper_wall @ [LogHitUpperWall]\<rparr>)"
    unfolding u2
    by (simp add: ex_at_upper_wall_eq controller_command_cell_eq log_printf_def MTR_def MSTR_def)
  have b2: "controller_step 15500 165 100 ex_at_upper_wall =
     last_move 15500 False False 165 100
       (ex_at_upper_wall\<lparr>hit_wall := True, curF := 3, g_freq := 3,
          uart_tx := uart_tx ex_at_upper_wall @ [3, 0, 3, 0x4D, 0, 3],
          log_out := log_out ex_at_upper_wall @ [LogHBStable 0, LogHitUpperWall]\<rparr>)"
    unfolding u4 [THEN conjunct1] evu
    by (simp add: ex_at_upper_wall_eq controller_command_cell_eq log_printf_def MTR_def MSTR_def)
  have b3: "hit_wall (controller_step 15500 165 100 ex_at_upper_wall)"
    by (rule u4 [THEN conjunct2, THEN conjunct1])
  have b4: "take 90 (uart_tx (controller_step 15500 165 100 ex_at_upper_wall)) =
     uart_tx ex_at_upper_wall @ [3, 0, 3, 0x4D, 0, 3]"
    using u4 [THEN conjunct2, THEN conjunct2]
    by (simp add: ex_at_upper_wall_eq motor_frame_bytes MTR_def MSTR_def)
  have e: "uart_tx (controller_step 7500 160 100 ex_at_left_wall) =
     uart_tx ex_at_left_wall @ [3, 0, 3, 0x4D, 3, 0, 3, 0, 3, 0x4D, 4, 0]"
    "uart_tx (controller_step 15500 165 100 ex_at_upper_wall) =
     uart_tx ex_at_upper_wall @ [3, 0, 3, 0x4D, 0, 3, 3, 0, 3, 0x4D, 0, 4]"
    by (simp_all add: ex_at_left_wall_eq ex_at_upper_wall_eq step_defs MTR_def MSTR_def)
  from a1 a2 a3 a4 b1 b2 b3 b4 e show ?thesis by blast
qed

text \<open>
  C3 as the specification words it fails: the boundary branch does command the motor.
  In the reachable state \<open>ex_at_left_wall\<close> the controller is idle at (4,0) with Left
  untried; on unchanged vitals the chain of lines 629-689 sends the frame for (3,0), and
  the step then sends the frame for (4,0) on its way back. The Up option of the chain
  was not taken: it would have set \<^verbatim>\<open>triedUpFromAnchor\<close> and \<^verbatim>\<open>lastMoveDir = 2\<close>.
\<close>

theorem C3_boundary_branch_commands_motor:
  "reachable ex_at_left_wall \<and> \<not> panic_mode ex_at_left_wall \<and>
   lastMoveDir ex_at_left_wall = 0 \<and> \<not> triedLeftFromAnchor ex_at_left_wall \<and>
   curA ex_at_left_wall = 4 \<and> curF ex_at_left_wall = 0 \<and>
   fst (first_move 7500 160 100 ex_at_left_wall) = False \<and>
   uart_tx (snd (first_move 7500 160 100 ex_at_left_wall)) \<noteq> uart_tx ex_at_left_wall \<and>
   uart_tx (snd (first_move 7500 160 100 ex_at_left_wall)) =
     uart_tx ex_at_left_wall @ motor_frame 3 0 \<and>
   uart_tx (controller_step 7500 160 100 ex_at_left_wall) =
     uart_tx ex_at_left_wall @ motor_frame 3 0 @ motor_frame 4 0 \<and>
   \<not> triedUpFromAnchor (controller_step 7500 160 100 ex_at_left_wall) \<and>
   lastMoveDir (controller_step 7500 160 100 ex_at_left_wall) = 0"
proof -
  have r0: "reachable ex_start"
    using reachable.mode3 [where now = 1000 and a = 0 and f = 0 and tx = "[]"]
    by (simp add: ex_start_def ctrl_boot_def)
  have r: "reachable ex_at_left_wall"
    unfolding ex_at_left_wall_def using r0 by (auto intro!: reachable.step)
  show ?thesis
    using r by (simp add: ex_at_left_wall_eq step_defs motor_frame_bytes)
qed

subsection \<open>The anchor registry\<close>

lemma registrations_append [simp]:
  "registrations (xs @ ys) = registrations xs @ registrations ys"
  by (induction xs rule: registrations.induct) simp_all

lemma below_Nil [simp]: "below a f []"
  by (simp add: below_def)

lemma below_le:
  assumes "below a f regs" and "a' \<le> a" and "f' \<le> f"
  shows "below a' f' regs"
  using assms unfolding below_def by (fastforce split: prod.splits)

lemma below_origin:
  assumes "registry_inv m lev regs"
  shows "below 0 0 regs"
  using assms unfolding below_def registry_inv_def on_grid_def by fastforce

lemma below_snoc:
  "below a0 f0 (regs @ [(a, f, l)]) \<longleftrightarrow>
     below a0 f0 regs \<and> a0 + f0 \<le> a + f \<and> (a0 + f0 = a + f \<longrightarrow> a = a0 \<and> f = f0)"
  by (auto simp add: below_def)

text \<open>At most nine cells are ever registered.\<close>

lemma registry_level_le:
  assumes "registry_inv m lev regs"
  shows "lev \<le> 9"
proof (cases "regs = []")
  case True
  with assms show ?thesis by (simp add: registry_inv_def)
next
  case False
  obtain a' f' l' where la: "last regs = (a', f', l')" by (cases "last regs")
  have "(a', f', l') \<in> set regs" using False la last_in_set [of regs] by simp
  then have "on_grid a' f'" using assms unfolding registry_inv_def by auto
  moreover have "lev + a' + f' \<le> 9"
    using assms False la unfolding registry_inv_def by auto
  ultimately show ?thesis by (simp add: on_grid_def)
qed

text \<open>A registered cell holds a rank, so an unknown cell is not in the log.\<close>

lemma registered_rank:
  assumes "registry_inv m lev regs" and "(a, f, l) \<in> set regs"
  shows "1 \<le> 10 - l \<and> m ! nat a ! nat f = 10 - l"
proof -
  from assms have e: "l \<le> lev" "m ! nat a ! nat f = 10 - l"
    unfolding registry_inv_def by auto
  with registry_level_le [OF assms(1)] show ?thesis by simp
qed

lemma registered_nonzero:
  assumes "registry_inv m lev regs" and "(a, f, l) \<in> set regs"
  shows "m ! nat a ! nat f \<noteq> 0"
  using registered_rank [OF assms] by simp

lemma registry_inv_new:
  assumes inv: "registry_inv m lev regs" and g: "on_grid a f" and b: "below a f regs"
    and z: "m ! nat a ! nat f = 0"
  shows "registry_inv (m[nat a := (m ! nat a)[nat f := 10 - (lev + 1)]]) (lev + 1)
           (regs @ [(a, f, lev + 1)])"
proof -
  let ?m' = "m[nat a := (m ! nat a)[nat f := 10 - (lev + 1)]]"
  have len: "length m = 5" "\<forall>row\<in>set m. length row = 5"
    using inv unfolding registry_inv_def by auto
  have na: "nat a < 5" "nat f < 5" using g by (auto simp add: on_grid_def)
  have rowa: "length (m ! nat a) = 5" using len na by simp
  have fresh: "(a, f) \<notin> (\<lambda>(a, f, l). (a, f)) ` set regs"
  proof
    assume "(a, f) \<in> (\<lambda>(a, f, l). (a, f)) ` set regs"
    then obtain l where "(a, f, l) \<in> set regs" by auto
    from registered_nonzero [OF inv this] z show False by simp
  qed
  have lower: "a + f < a' + f'" if "(a', f', l') \<in> set regs" for a' f' l'
  proof -
    from b that have "a + f \<le> a' + f'" "a + f = a' + f' \<longrightarrow> a' = a \<and> f' = f"
      unfolding below_def by auto
    moreover have "(a', f') \<noteq> (a, f)" using fresh that by force
    ultimately show ?thesis by auto
  qed
  have other: "?m' ! nat a' ! nat f' = m ! nat a' ! nat f'"
    if "on_grid a' f'" "(a', f') \<noteq> (a, f)" for a' f'
  proof (cases "a' = a")
    case True
    with that have "nat f' \<noteq> nat f" using g by (auto simp add: on_grid_def)
    with True show ?thesis using len na by simp
  next
    case False
    with that(1) g have "nat a' \<noteq> nat a" by (auto simp add: on_grid_def)
    then show ?thesis by simp
  qed
  have here: "?m' ! nat a ! nat f = 10 - (lev + 1)"
    using len na rowa by simp
  have lev: "lev = int (length regs)" using inv unfolding registry_inv_def by auto
  have c1: "length ?m' = 5" using len by simp
  have c2: "\<forall>row\<in>set ?m'. length row = 5"
  proof
    fix row assume "row \<in> set ?m'"
    then have "row \<in> insert ((m ! nat a)[nat f := 10 - (lev + 1)]) (set m)"
      using set_update_subset_insert by fast
    then show "length row = 5" using len(2) rowa by auto
  qed
  have c4: "map (\<lambda>(a, f, l). l) (regs @ [(a, f, lev + 1)]) =
      map (\<lambda>i. int i + 1) [0..<length (regs @ [(a, f, lev + 1)])]"
    using inv lev unfolding registry_inv_def by simp
  have c5: "\<forall>(a', f', l')\<in>set (regs @ [(a, f, lev + 1)]).
      on_grid a' f' \<and> 1 \<le> l' \<and> l' \<le> lev + 1 \<and> ?m' ! nat a' ! nat f' = 10 - l'"
  proof (clarify)
    fix a' f' l' assume m: "(a', f', l') \<in> set (regs @ [(a, f, lev + 1)])"
    show "on_grid a' f' \<and> 1 \<le> l' \<and> l' \<le> lev + 1 \<and> ?m' ! nat a' ! nat f' = 10 - l'"
    proof (cases "(a', f', l') \<in> set regs")
      case True
      then have o: "on_grid a' f' \<and> 1 \<le> l' \<and> l' \<le> lev \<and> m ! nat a' ! nat f' = 10 - l'"
        using inv unfolding registry_inv_def by auto
      moreover have "(a', f') \<noteq> (a, f)" using fresh True by force
      ultimately show ?thesis using other [of a' f'] by simp
    next
      case False
      with m have "a' = a" "f' = f" "l' = lev + 1" by auto
      then show ?thesis using g here lev by simp
    qed
  qed
  have c6: "\<forall>a' f'. on_grid a' f' \<longrightarrow> ?m' ! nat a' ! nat f' \<noteq> 0 \<longrightarrow>
      (a', f') \<in> (\<lambda>(a, f, l). (a, f)) ` set (regs @ [(a, f, lev + 1)])"
  proof (intro allI impI)
    fix a' f' assume o: "on_grid a' f'" and nz: "?m' ! nat a' ! nat f' \<noteq> 0"
    show "(a', f') \<in> (\<lambda>(a, f, l). (a, f)) ` set (regs @ [(a, f, lev + 1)])"
    proof (cases "(a', f') = (a, f)")
      case True
      then show ?thesis by force
    next
      case False
      with other [OF o] nz have "m ! nat a' ! nat f' \<noteq> 0" by simp
      with inv o have "(a', f') \<in> (\<lambda>(a, f, l). (a, f)) ` set regs"
        unfolding registry_inv_def by blast
      then show ?thesis by auto
    qed
  qed
  have c7: "distinct (map (\<lambda>(a, f, l). (a, f)) (regs @ [(a, f, lev + 1)]))"
    using inv fresh unfolding registry_inv_def by simp
  have c8: "lev + 1 + a + f \<le> 9"
  proof (cases "regs = []")
    case True
    with lev g show ?thesis by (simp add: on_grid_def)
  next
    case False
    obtain a' f' l' where la: "last regs = (a', f', l')" by (cases "last regs")
    have "(a', f', l') \<in> set regs" using False la last_in_set [of regs] by simp
    from lower [OF this] have "a + f < a' + f'" .
    moreover have "lev + a' + f' \<le> 9"
      using inv False la unfolding registry_inv_def by auto
    ultimately show ?thesis by simp
  qed
  show ?thesis
    unfolding registry_inv_def
    using c1 c2 c4 c5 c6 c7 c8 lev by simp
qed

lemma registrations_register_anchor:
  "registrations (log_out (register_anchor a f s)) =
     registrations (log_out s) @
       (if on_grid a f \<and> anchorMatrix s ! nat a ! nat f = 0 then [(a, f, anchorLevel s + 1)] else [])"
  by (auto simp add: register_anchor_def Let_def on_grid_def)

lemma reg_ok_register_anchor:
  assumes "reg_ok s"
  shows "reg_ok (register_anchor (curA s) (curF s) s)"
proof (cases "anchorMatrix s ! nat (curA s) ! nat (curF s) = 0")
  case True
  let ?regs = "registrations (log_out s)"
  from assms have g: "on_grid (curA s) (curF s)" and b: "below (curA s) (curF s) ?regs"
    and inv: "registry_inv (anchorMatrix s) (anchorLevel s) ?regs"
    unfolding reg_ok_def by auto
  have n: "registry_inv
      ((anchorMatrix s)[nat (curA s) := (anchorMatrix s ! nat (curA s))[nat (curF s) := 10 - (anchorLevel s + 1)]])
      (anchorLevel s + 1) (?regs @ [(curA s, curF s, anchorLevel s + 1)])"
    by (rule registry_inv_new [OF inv g b True])
  have r: "registrations (log_out (register_anchor (curA s) (curF s) s)) =
      ?regs @ [(curA s, curF s, anchorLevel s + 1)]"
    using g True by (simp add: registrations_register_anchor)
  have m: "anchorMatrix (register_anchor (curA s) (curF s) s) =
      (anchorMatrix s)[nat (curA s) := (anchorMatrix s ! nat (curA s))[nat (curF s) := 10 - (anchorLevel s + 1)]]"
    "anchorLevel (register_anchor (curA s) (curF s) s) = anchorLevel s + 1"
    using g True by (simp_all add: register_anchor_def Let_def on_grid_def)
  show ?thesis
    unfolding reg_ok_def using g b n by (simp add: r m below_snoc)
next
  case False
  then have "register_anchor (curA s) (curF s) s = s"
    by (simp add: register_anchor_def)
  with assms show ?thesis by simp
qed

text \<open>The sections of a step keep the registry and the cells in order.\<close>

lemma registrations_controller_command_cell [simp]:
  "registrations (log_out (controller_command_cell now a f s)) = registrations (log_out s)"
  by (simp add: controller_command_cell_eq Let_def)

lemma registrations_check_same [simp]:
  "registrations (log_out (snd (check_same bpm_now cry_now s))) = registrations (log_out s)"
  by (simp add: check_same_def Let_def)

lemma reg_ok_anchor_sync:
  assumes "reg_ok s"
  shows "reg_ok (anchor_sync s)"
proof (cases "lastMoveDir s = 0 \<and> (anchorA_mem s \<noteq> curA s \<or> anchorF_mem s \<noteq> curF s)")
  case True
  let ?s4 = "s\<lparr>anchorA_mem := curA s, anchorF_mem := curF s, triedLeftFromAnchor := False,
               triedUpFromAnchor := False\<rparr>"
  have "reg_ok ?s4" using assms by (simp add: reg_ok_def)
  from reg_ok_register_anchor [OF this] True show ?thesis
    by (simp add: anchor_sync_def Let_def)
next
  case False
  then have "anchor_sync s = s" by (auto simp add: anchor_sync_def)
  with assms show ?thesis by simp
qed

lemma anchors_inv_first_move:
  assumes "reg_ok s"
  shows "anchors_inv (snd (first_move now bpm_now cry_now s))"
  using assms
  by (auto simp add: first_move_def Let_def anchors_inv_def reg_ok_def on_grid_def below_def
      split: prod.splits)

lemma anchors_inv_improved_move:
  assumes "reg_ok s"
  shows "anchors_inv (improved_move now bpm_now cry_now s)"
proof -
  define s1 where "s1 = log_printf (LogImproved (curA s + 1) (curF s + 1)) s"
  define s2 where "s2 = register_anchor (curA s) (curF s) s1"
  have "reg_ok s1" using assms by (simp add: s1_def reg_ok_def)
  from reg_ok_register_anchor [OF this] have r2: "reg_ok s2"
    by (simp add: s2_def s1_def)
  have c2: "curA s2 = curA s" "curF s2 = curF s"
    by (simp_all add: s2_def s1_def)
  have "improved_move now bpm_now cry_now s =
     (let s3 = (if anchorA_mem s2 \<noteq> curA s \<or> anchorF_mem s2 \<noteq> curF s then
                  s2\<lparr>anchorA_mem := curA s, anchorF_mem := curF s,
                     triedLeftFromAnchor := False, triedUpFromAnchor := False\<rparr>
                else s2);
          s5 = s3\<lparr>prevA := curA s, prevF := curF s\<rparr>;
          s6 = (if curF s > 0 then
                  controller_command_cell now (curA s) (curF s - 1)
                    (log_printf (LogImprovedLeft (curA s + 1) (curF s + 1))
                       (s5\<lparr>lastMoveDir := 1, triedLeftFromAnchor := True\<rparr>))
                else if curA s > 0 then
                  controller_command_cell now (curA s - 1) (curF s)
                    (log_printf (LogImprovedUp (curA s + 1) (curF s + 1))
                       (s5\<lparr>lastMoveDir := 2\<rparr>))
                else s5)
      in s6\<lparr>ctrl_lastBPM := bpm_now, ctrl_lastCRY := cry_now\<rparr>)"
    by (simp add: improved_move_def Let_def s2_def s1_def)
  then show ?thesis
    using r2 c2
    by (auto simp add: Let_def anchors_inv_def reg_ok_def on_grid_def below_def)
qed

lemma anchors_inv_unimproved_move:
  assumes "anchors_inv s"
  shows "anchors_inv (unimproved_move now same bpm_now cry_now s)"
  using assms
  by (auto simp add: unimproved_move_def backtrack_def Let_def anchors_inv_def reg_ok_def
      on_grid_def below_def)

lemma anchors_inv_last_move:
  assumes "anchors_inv s"
  shows "anchors_inv (last_move now improved same bpm_now cry_now s)"
  using assms anchors_inv_improved_move [of s] anchors_inv_unimproved_move [of s]
  by (simp add: last_move_def anchors_inv_def)

lemma anchors_inv_normal_step:
  assumes "anchors_inv s"
  shows "anchors_inv (normal_step now bpm_now cry_now s)"
proof -
  obtain improved s1 where ci: "check_improved bpm_now cry_now s = (improved, s1)"
    by (cases "check_improved bpm_now cry_now s")
  obtain same s2 where cs: "check_same bpm_now cry_now s1 = (same, s2)"
    by (cases "check_same bpm_now cry_now s1")
  have k1: "curA s1 = curA s" "curF s1 = curF s" "prevA s1 = prevA s" "prevF s1 = prevF s"
    "anchorMatrix s1 = anchorMatrix s" "anchorLevel s1 = anchorLevel s" "log_out s1 = log_out s"
    using check_improved_keeps(2-5,11,12,16) [of bpm_now cry_now s] ci by simp_all
  have k2: "curA s2 = curA s" "curF s2 = curF s" "prevA s2 = prevA s" "prevF s2 = prevF s"
    "anchorMatrix s2 = anchorMatrix s" "anchorLevel s2 = anchorLevel s"
    "registrations (log_out s2) = registrations (log_out s)"
    using check_same_keeps(3-6,12,13) [of bpm_now cry_now s1]
      registrations_check_same [of bpm_now cry_now s1] cs k1 by simp_all
  have i2: "anchors_inv s2"
    using assms k2 by (simp add: anchors_inv_def reg_ok_def)
  then have "reg_ok s2" by (simp add: anchors_inv_def)
  then have "reg_ok (anchor_sync s2)" by (rule reg_ok_anchor_sync)
  then have f: "anchors_inv (snd (first_move now bpm_now cry_now (anchor_sync s2)))"
    by (rule anchors_inv_first_move)
  then have fl: "anchors_inv (last_move now improved same bpm_now cry_now
      (snd (first_move now bpm_now cry_now (anchor_sync s2))))"
    by (rule anchors_inv_last_move)
  have l: "anchors_inv (last_move now improved same bpm_now cry_now s2)"
    using i2 by (rule anchors_inv_last_move)
  show ?thesis
    using f fl l by (simp add: normal_step_unfold [OF ci cs])
qed

lemma anchors_inv_controller_step:
  assumes "anchors_inv s"
  shows "anchors_inv (controller_step now bpm_now cry_now s)"
proof (cases "panic_mode (controller_step now bpm_now cry_now s)")
  case True
  then have p: "panic_mode s \<or> (0 < ctrl_lastBPM s \<and> 30 \<le> bpm_now - ctrl_lastBPM s)"
    by (simp add: panic_mode_step_iff)
  have "below 0 0 (registrations (log_out s))"
    using assms below_origin unfolding anchors_inv_def reg_ok_def by blast
  then show ?thesis
    using p assms
    by (cases "panic_mode s")
       (auto simp add: panic_step_eq panic_entry_eq anchors_inv_def reg_ok_def on_grid_def)
next
  case False
  then have a: "\<not> panic_mode s" "\<not> (0 < ctrl_lastBPM s \<and> 30 \<le> bpm_now - ctrl_lastBPM s)"
    by (simp_all add: panic_mode_step_iff)
  have "anchors_inv (s\<lparr>hit_wall := False\<rparr>)"
    using assms by (simp add: anchors_inv_def reg_ok_def)
  then show ?thesis
    unfolding no_panic_step_eq [OF a] by (rule anchors_inv_normal_step)
qed

lemma registry_inv_empty:
  "registry_inv [[0, 0, 0, 0, 0], [0, 0, 0, 0, 0], [0, 0, 0, 0, 0], [0, 0, 0, 0, 0],
                 [0, 0, 0, 0, 0]] 0 []"
proof -
  have "[[0, 0, 0, 0, 0], [0, 0, 0, 0, 0], [0, 0, 0, 0, 0], [0, 0, 0, 0, 0],
         [0, 0, 0, 0, 0 :: int]] ! i ! j = 0" if "i < 5" "j < 5" for i j
  proof -
    from that(1) have "i = 0 \<or> i = 1 \<or> i = 2 \<or> i = 3 \<or> i = 4" by arith
    moreover from that(2) have "j = 0 \<or> j = 1 \<or> j = 2 \<or> j = 3 \<or> j = 4" by arith
    ultimately show ?thesis by auto
  qed
  moreover have "nat a < 5 \<and> nat f < 5" if "on_grid a f" for a f
    using that by (auto simp add: on_grid_def)
  ultimately show ?thesis
    by (simp add: registry_inv_def)
qed

lemma reachable_anchors_inv:
  "reachable s \<Longrightarrow> anchors_inv s"
proof (induction rule: reachable.induct)
  case (demo clock now)
  show ?case
    using registry_inv_empty
    by (simp add: demo_init_def ctrl_boot_def Let_def anchors_inv_def reg_ok_def on_grid_def)
next
  case (mode3 now a f tx)
  show ?case
    using registry_inv_empty
    by (simp add: mode3_init_def ctrl_boot_def Let_def anchors_inv_def reg_ok_def on_grid_def)
next
  case (step s now bpm_now cry_now)
  then show ?case by (simp add: anchors_inv_controller_step)
next
  case (bus s tx)
  then show ?case by (simp add: anchors_inv_def reg_ok_def)
qed

lemma ranks_of_levels:
  assumes "map (\<lambda>(a, f, l). l) regs = map (\<lambda>i. int i + 1) [0..<length regs]"
  shows "map (\<lambda>(a, f, l). 10 - l) regs = map (\<lambda>i. 9 - int i) [0..<length regs]"
proof -
  have "map (\<lambda>(a, f, l). 10 - l) regs = map (\<lambda>l. 10 - l) (map (\<lambda>(a, f, l). l) regs)"
    by (simp add: case_prod_unfold)
  also have "\<dots> = map (\<lambda>l. 10 - l) (map (\<lambda>i. int i + 1) [0..<length regs])"
    by (simp only: assms)
  also have "\<dots> = map (\<lambda>i. 9 - int i) [0..<length regs]"
    by simp
  finally show ?thesis .
qed

lemma ranks_decreasing:
  "sorted_wrt (>) (map (\<lambda>i. 9 - int i) [0..<n])"
  by (simp add: sorted_wrt_iff_nth_less)

text \<open>A fresh cell gets the next level, and the rank 10 minus that level is stored.\<close>

lemma register_anchor_fresh:
  assumes inv: "registry_inv (anchorMatrix s) (anchorLevel s) (registrations (log_out s))"
    and g: "on_grid a f" and z: "anchorMatrix s ! nat a ! nat f = 0"
  shows "registrations (log_out (register_anchor a f s)) =
       registrations (log_out s) @ [(a, f, int (length (registrations (log_out s))) + 1)] \<and>
     anchorLevel (register_anchor a f s) = int (length (registrations (log_out s))) + 1 \<and>
     anchorMatrix (register_anchor a f s) ! nat a ! nat f =
       9 - int (length (registrations (log_out s)))"
proof -
  have lev: "anchorLevel s = int (length (registrations (log_out s)))"
    using inv by (simp add: registry_inv_def)
  have len: "length (anchorMatrix s) = 5" "\<forall>row\<in>set (anchorMatrix s). length row = 5"
    using inv unfolding registry_inv_def by auto
  have na: "nat a < 5" "nat f < 5" using g by (auto simp add: on_grid_def)
  have rowa: "length (anchorMatrix s ! nat a) = 5" using len na by simp
  have in_range: "\<not> (a < 0 \<or> a > 4 \<or> f < 0 \<or> f > 4)"
    using g by (auto simp add: on_grid_def)
  have m: "anchorMatrix (register_anchor a f s) =
      (anchorMatrix s)[nat a := (anchorMatrix s ! nat a)[nat f := 10 - (anchorLevel s + 1)]]"
    "anchorLevel (register_anchor a f s) = anchorLevel s + 1"
    using in_range z by (simp_all add: register_anchor_def Let_def)
  have r: "registrations (log_out (register_anchor a f s)) =
      registrations (log_out s) @ [(a, f, anchorLevel s + 1)]"
    using g z by (simp add: registrations_register_anchor)
  have e: "anchorMatrix (register_anchor a f s) ! nat a ! nat f = 10 - (anchorLevel s + 1)"
    unfolding m using len na rowa by simp
  show ?thesis
    using r m(2) e lev by simp
qed

text \<open>Where a step registers: the anchor sync when idle, and the improved move.\<close>

lemma registrations_anchor_sync:
  "registrations (log_out (anchor_sync s)) =
     registrations (log_out s) @
       (if lastMoveDir s = 0 \<and> (anchorA_mem s \<noteq> curA s \<or> anchorF_mem s \<noteq> curF s) \<and>
           on_grid (curA s) (curF s) \<and> anchorMatrix s ! nat (curA s) ! nat (curF s) = 0
        then [(curA s, curF s, anchorLevel s + 1)] else [])"
  by (simp add: anchor_sync_def Let_def registrations_register_anchor)

lemma registrations_first_move [simp]:
  "registrations (log_out (snd (first_move now bpm_now cry_now s))) = registrations (log_out s)"
  by (simp add: first_move_def Let_def)

lemma registrations_improved_move:
  "registrations (log_out (improved_move now bpm_now cry_now s)) =
     registrations (log_out s) @
       (if on_grid (curA s) (curF s) \<and> anchorMatrix s ! nat (curA s) ! nat (curF s) = 0
        then [(curA s, curF s, anchorLevel s + 1)] else [])"
  by (simp add: improved_move_def Let_def registrations_register_anchor)

lemma registrations_unimproved_move:
  "registrations (log_out (unimproved_move now same bpm_now cry_now s)) =
     registrations (log_out s)"
  by (simp add: unimproved_move_def backtrack_def Let_def)

lemma registrations_last_move_take:
  "take (length (registrations (log_out s)))
     (registrations (log_out (last_move now improved same bpm_now cry_now s))) =
   registrations (log_out s)"
  by (simp add: last_move_def registrations_improved_move registrations_unimproved_move)

text \<open>
  The step with panic mode off, in terms of the state: the sections before line 612
  change neither the cells nor the registry.
\<close>

lemma normal_step_sections:
  assumes s2_def: "s2 = (snd (check_same bpm_now cry_now (snd (check_improved bpm_now cry_now s))))
                   \<lparr>hit_wall := False\<rparr>"
    and "\<not> panic_mode s" and "\<not> (0 < ctrl_lastBPM s \<and> 30 \<le> bpm_now - ctrl_lastBPM s)"
  shows "controller_step now bpm_now cry_now s =
     (if lastMoveDir s = 0 then
        (if fst (first_move now bpm_now cry_now (anchor_sync s2))
         then snd (first_move now bpm_now cry_now (anchor_sync s2))
         else last_move now (fst (check_improved bpm_now cry_now s))
                (fst (check_same bpm_now cry_now (snd (check_improved bpm_now cry_now s))))
                bpm_now cry_now (snd (first_move now bpm_now cry_now (anchor_sync s2))))
      else last_move now (fst (check_improved bpm_now cry_now s))
             (fst (check_same bpm_now cry_now (snd (check_improved bpm_now cry_now s))))
             bpm_now cry_now s2)"
    and "registrations (log_out s2) = registrations (log_out s)"
    and "curA s2 = curA s" and "curF s2 = curF s"
    and "anchorA_mem s2 = anchorA_mem s" and "anchorF_mem s2 = anchorF_mem s"
    and "anchorMatrix s2 = anchorMatrix s" and "anchorLevel s2 = anchorLevel s"
    and "lastMoveDir s2 = lastMoveDir s"
proof -
  let ?s0 = "s\<lparr>hit_wall := False\<rparr>"
  let ?improved = "fst (check_improved bpm_now cry_now s)"
  let ?s1 = "(snd (check_improved bpm_now cry_now s))\<lparr>hit_wall := False\<rparr>"
  let ?same = "fst (check_same bpm_now cry_now (snd (check_improved bpm_now cry_now s)))"
  have ci: "check_improved bpm_now cry_now ?s0 = (?improved, ?s1)"
    by (simp add: check_improved_hit_wall)
  have cs: "check_same bpm_now cry_now ?s1 = (?same, s2)"
    by (simp add: check_same_hit_wall s2_def)
  have "controller_step now bpm_now cry_now s = normal_step now bpm_now cry_now ?s0"
    by (rule no_panic_step_eq [OF assms(2,3)])
  then show "controller_step now bpm_now cry_now s =
     (if lastMoveDir s = 0 then
        (if fst (first_move now bpm_now cry_now (anchor_sync s2))
         then snd (first_move now bpm_now cry_now (anchor_sync s2))
         else last_move now ?improved ?same bpm_now cry_now
                (snd (first_move now bpm_now cry_now (anchor_sync s2))))
      else last_move now ?improved ?same bpm_now cry_now s2)"
    by (simp add: normal_step_unfold [OF ci cs])
  show "registrations (log_out s2) = registrations (log_out s)"
    and "curA s2 = curA s" and "curF s2 = curF s"
    and "anchorA_mem s2 = anchorA_mem s" and "anchorF_mem s2 = anchorF_mem s"
    and "anchorMatrix s2 = anchorMatrix s" and "anchorLevel s2 = anchorLevel s"
    and "lastMoveDir s2 = lastMoveDir s"
    by (simp_all add: s2_def)
qed

lemma idle_step_registers:
  assumes "\<not> panic_mode s" and "\<not> (0 < ctrl_lastBPM s \<and> 30 \<le> bpm_now - ctrl_lastBPM s)"
    and "lastMoveDir s = 0"
    and "anchorA_mem s \<noteq> curA s \<or> anchorF_mem s \<noteq> curF s"
    and "on_grid (curA s) (curF s)"
    and "anchorMatrix s ! nat (curA s) ! nat (curF s) = 0"
  shows "take (length (registrations (log_out s)) + 1)
       (registrations (log_out (controller_step now bpm_now cry_now s))) =
     registrations (log_out s) @ [(curA s, curF s, anchorLevel s + 1)]"
proof -
  define s2 where "s2 = (snd (check_same bpm_now cry_now (snd (check_improved bpm_now cry_now s))))
                   \<lparr>hit_wall := False\<rparr>"
  note sec = normal_step_sections [OF s2_def assms(1,2)]
  let ?fm = "first_move now bpm_now cry_now (anchor_sync s2)"
  let ?new = "registrations (log_out s) @ [(curA s, curF s, anchorLevel s + 1)]"
  have sy: "registrations (log_out (anchor_sync s2)) = ?new"
    using assms(3-6) sec(2-9) by (simp add: registrations_anchor_sync)
  then have f: "registrations (log_out (snd ?fm)) = ?new"
    by simp
  have l: "take (length ?new) (registrations (log_out (last_move now improved same bpm_now cry_now (snd ?fm)))) = ?new"
    for improved same
    using registrations_last_move_take [of "snd ?fm" now improved same bpm_now cry_now] f by simp
  show ?thesis
    using assms(3) f l by (simp add: sec(1))
qed

lemma improved_step_registers:
  assumes "\<not> panic_mode s" and "\<not> (0 < ctrl_lastBPM s \<and> 30 \<le> bpm_now - ctrl_lastBPM s)"
    and "lastMoveDir s \<noteq> 0"
    and "fst (check_improved bpm_now cry_now s)"
    and "on_grid (curA s) (curF s)"
    and "anchorMatrix s ! nat (curA s) ! nat (curF s) = 0"
  shows "registrations (log_out (controller_step now bpm_now cry_now s)) =
     registrations (log_out s) @ [(curA s, curF s, anchorLevel s + 1)]"
proof -
  define s2 where "s2 = (snd (check_same bpm_now cry_now (snd (check_improved bpm_now cry_now s))))
                   \<lparr>hit_wall := False\<rparr>"
  note sec = normal_step_sections [OF s2_def assms(1,2)]
  have "controller_step now bpm_now cry_now s = improved_move now bpm_now cry_now s2"
    using assms(3,4) by (simp add: sec(1) last_move_def)
  then show ?thesis
    using assms(5,6) sec(2-9) by (simp add: registrations_improved_move)
qed

text \<open>
  C4. Anchor registry. In every reachable state, with the registrations read off the log
  in the order they were made and \<open>n\<close> their number:
  \<^item> the ranks assigned (10 minus the level printed) are 9, 8, 7, ... (the first is
    10 - 1 and each next one is one less, so they decrease strictly);
  \<^item> no cell was registered twice;
  \<^item> each registered cell is on the grid and still holds the rank it was given, which
    is at least 1, and \<^verbatim>\<open>register_anchor\<close> called again for it changes nothing;
  \<^item> \<^verbatim>\<open>register_anchor\<close> called for a cell of the grid that holds no rank appends
    that cell with level \<open>n + 1\<close> to the registrations, sets \<^verbatim>\<open>anchorLevel\<close> to
    \<open>n + 1\<close> and stores the rank \<open>9 - n\<close> in the cell; when the cell is the current
    cell the rank is at least 1;
  \<^item> a step taken idle (panic mode off, no jump of 30) at a cell that is not the
    remembered anchor and holds no rank registers that cell next, with level \<open>n + 1\<close>;
  \<^item> a step after a pending move that finds the vitals improved, at a cell that holds
    no rank, registers that cell, with level \<open>n + 1\<close>, and nothing else.
\<close>

theorem C4_anchor_registry:
  assumes "reachable s"
  shows "map (\<lambda>(a, f, l). 10 - l) (registrations (log_out s)) =
       map (\<lambda>i. 9 - int i) [0..<length (registrations (log_out s))] \<and>
     sorted_wrt (>) (map (\<lambda>(a, f, l). 10 - l) (registrations (log_out s))) \<and>
     distinct (map (\<lambda>(a, f, l). (a, f)) (registrations (log_out s))) \<and>
     (\<forall>(a, f, l)\<in>set (registrations (log_out s)).
        on_grid a f \<and> 1 \<le> 10 - l \<and> anchorMatrix s ! nat a ! nat f = 10 - l \<and>
        register_anchor a f s = s) \<and>
     (on_grid a f \<and> anchorMatrix s ! nat a ! nat f = 0 \<longrightarrow>
        registrations (log_out (register_anchor a f s)) =
          registrations (log_out s) @ [(a, f, int (length (registrations (log_out s))) + 1)] \<and>
        anchorLevel (register_anchor a f s) = int (length (registrations (log_out s))) + 1 \<and>
        anchorMatrix (register_anchor a f s) ! nat a ! nat f =
          9 - int (length (registrations (log_out s))) \<and>
        (a = curA s \<and> f = curF s \<longrightarrow> 1 \<le> 9 - int (length (registrations (log_out s))))) \<and>
     (\<not> panic_mode s \<and> \<not> (0 < ctrl_lastBPM s \<and> 30 \<le> bpm_now - ctrl_lastBPM s) \<and>
      lastMoveDir s = 0 \<and> (anchorA_mem s \<noteq> curA s \<or> anchorF_mem s \<noteq> curF s) \<and>
      anchorMatrix s ! nat (curA s) ! nat (curF s) = 0 \<longrightarrow>
        take (length (registrations (log_out s)) + 1)
          (registrations (log_out (controller_step now bpm_now cry_now s))) =
        registrations (log_out s) @
          [(curA s, curF s, int (length (registrations (log_out s))) + 1)]) \<and>
     (\<not> panic_mode s \<and> \<not> (0 < ctrl_lastBPM s \<and> 30 \<le> bpm_now - ctrl_lastBPM s) \<and>
      lastMoveDir s \<noteq> 0 \<and> fst (check_improved bpm_now cry_now s) \<and>
      anchorMatrix s ! nat (curA s) ! nat (curF s) = 0 \<longrightarrow>
        registrations (log_out (controller_step now bpm_now cry_now s)) =
        registrations (log_out s) @
          [(curA s, curF s, int (length (registrations (log_out s))) + 1)])"
proof -
  let ?regs = "registrations (log_out s)"
  have ai: "anchors_inv s" by (rule reachable_anchors_inv [OF assms])
  then have ro: "reg_ok s" by (simp add: anchors_inv_def)
  have inv: "registry_inv (anchorMatrix s) (anchorLevel s) ?regs"
    and cg: "on_grid (curA s) (curF s)"
    using ro by (simp_all add: reg_ok_def)
  have lev: "anchorLevel s = int (length ?regs)"
    using inv by (simp add: registry_inv_def)
  have lv: "map (\<lambda>(a, f, l). l) ?regs = map (\<lambda>i. int i + 1) [0..<length ?regs]"
    using inv by (simp add: registry_inv_def)
  have r: "map (\<lambda>(a, f, l). 10 - l) ?regs = map (\<lambda>i. 9 - int i) [0..<length ?regs]"
    by (rule ranks_of_levels [OF lv])
  have d: "distinct (map (\<lambda>(a, f, l). (a, f)) ?regs)"
    using inv by (simp add: registry_inv_def)
  have m: "\<forall>(a, f, l)\<in>set ?regs.
      on_grid a f \<and> 1 \<le> 10 - l \<and> anchorMatrix s ! nat a ! nat f = 10 - l \<and>
      register_anchor a f s = s"
  proof (clarify)
    fix a f l assume e: "(a, f, l) \<in> set ?regs"
    have g: "on_grid a f" using inv e unfolding registry_inv_def by auto
    note k = registered_rank [OF inv e]
    then have "register_anchor a f s = s" by (simp add: register_anchor_def)
    with g k show "on_grid a f \<and> 1 \<le> 10 - l \<and> anchorMatrix s ! nat a ! nat f = 10 - l \<and>
      register_anchor a f s = s" by simp
  qed
  have fresh: "on_grid a f \<and> anchorMatrix s ! nat a ! nat f = 0 \<longrightarrow>
        registrations (log_out (register_anchor a f s)) =
          ?regs @ [(a, f, int (length ?regs) + 1)] \<and>
        anchorLevel (register_anchor a f s) = int (length ?regs) + 1 \<and>
        anchorMatrix (register_anchor a f s) ! nat a ! nat f = 9 - int (length ?regs) \<and>
        (a = curA s \<and> f = curF s \<longrightarrow> 1 \<le> 9 - int (length ?regs))"
  proof (intro impI conjI)
    assume h: "on_grid a f \<and> anchorMatrix s ! nat a ! nat f = 0"
    then have g: "on_grid a f" and z: "anchorMatrix s ! nat a ! nat f = 0" by simp_all
    note k = register_anchor_fresh [OF inv g z]
    show "registrations (log_out (register_anchor a f s)) = ?regs @ [(a, f, int (length ?regs) + 1)]"
      using k by simp
    show "anchorLevel (register_anchor a f s) = int (length ?regs) + 1"
      using k by simp
    show "anchorMatrix (register_anchor a f s) ! nat a ! nat f = 9 - int (length ?regs)"
      using k by simp
    assume c: "a = curA s \<and> f = curF s"
    have "reg_ok (register_anchor (curA s) (curF s) s)"
      by (rule reg_ok_register_anchor [OF ro])
    then have "registry_inv (anchorMatrix (register_anchor a f s))
        (anchorLevel (register_anchor a f s)) (registrations (log_out (register_anchor a f s)))"
      using c by (simp add: reg_ok_def)
    from registry_level_le [OF this] k show "1 \<le> 9 - int (length ?regs)"
      by simp
  qed
  have idle: "\<not> panic_mode s \<and> \<not> (0 < ctrl_lastBPM s \<and> 30 \<le> bpm_now - ctrl_lastBPM s) \<and>
      lastMoveDir s = 0 \<and> (anchorA_mem s \<noteq> curA s \<or> anchorF_mem s \<noteq> curF s) \<and>
      anchorMatrix s ! nat (curA s) ! nat (curF s) = 0 \<longrightarrow>
        take (length ?regs + 1)
          (registrations (log_out (controller_step now bpm_now cry_now s))) =
        ?regs @ [(curA s, curF s, int (length ?regs) + 1)]"
  proof
    assume h: "\<not> panic_mode s \<and> \<not> (0 < ctrl_lastBPM s \<and> 30 \<le> bpm_now - ctrl_lastBPM s) \<and>
      lastMoveDir s = 0 \<and> (anchorA_mem s \<noteq> curA s \<or> anchorF_mem s \<noteq> curF s) \<and>
      anchorMatrix s ! nat (curA s) ! nat (curF s) = 0"
    have "take (length ?regs + 1)
          (registrations (log_out (controller_step now bpm_now cry_now s))) =
        ?regs @ [(curA s, curF s, anchorLevel s + 1)]"
      using h cg by (intro idle_step_registers) simp_all
    then show "take (length ?regs + 1)
          (registrations (log_out (controller_step now bpm_now cry_now s))) =
        ?regs @ [(curA s, curF s, int (length ?regs) + 1)]"
      by (simp add: lev)
  qed
  have imp: "\<not> panic_mode s \<and> \<not> (0 < ctrl_lastBPM s \<and> 30 \<le> bpm_now - ctrl_lastBPM s) \<and>
      lastMoveDir s \<noteq> 0 \<and> fst (check_improved bpm_now cry_now s) \<and>
      anchorMatrix s ! nat (curA s) ! nat (curF s) = 0 \<longrightarrow>
        registrations (log_out (controller_step now bpm_now cry_now s)) =
        ?regs @ [(curA s, curF s, int (length ?regs) + 1)]"
  proof
    assume h: "\<not> panic_mode s \<and> \<not> (0 < ctrl_lastBPM s \<and> 30 \<le> bpm_now - ctrl_lastBPM s) \<and>
      lastMoveDir s \<noteq> 0 \<and> fst (check_improved bpm_now cry_now s) \<and>
      anchorMatrix s ! nat (curA s) ! nat (curF s) = 0"
    have "registrations (log_out (controller_step now bpm_now cry_now s)) =
        ?regs @ [(curA s, curF s, anchorLevel s + 1)]"
      using h cg by (intro improved_step_registers) simp_all
    then show "registrations (log_out (controller_step now bpm_now cry_now s)) =
        ?regs @ [(curA s, curF s, int (length ?regs) + 1)]"
      by (simp add: lev)
  qed
  have sorted: "sorted_wrt (>) (map (\<lambda>(a, f, l). 10 - l) ?regs)"
    using ranks_decreasing [of "length ?regs"] by (simp only: r)
  from r sorted d m fresh idle imp show ?thesis
    by blast
qed

theorem C4_anchor_registry_witness:
  "reachable ex_at_left_wall \<and>
   registrations (log_out ex_at_left_wall) =
     [(4, 4, 1), (4, 3, 2), (4, 2, 3), (4, 1, 4), (4, 0, 5)] \<and>
   map (\<lambda>(a, f, l). 10 - l) (registrations (log_out ex_at_left_wall)) = [9, 8, 7, 6, 5] \<and>
   anchorMatrix ex_at_left_wall ! 4 = [5, 6, 7, 8, 9] \<and>
   registrations (log_out (register_anchor 3 0 ex_at_left_wall)) =
     [(4, 4, 1), (4, 3, 2), (4, 2, 3), (4, 1, 4), (4, 0, 5), (3, 0, 6)] \<and>
   anchorMatrix (register_anchor 3 0 ex_at_left_wall) ! 3 ! 0 = 4 \<and>
   registrations (log_out (register_anchor 4 4 ex_start)) = [(4, 4, 1)] \<and>
   anchorMatrix (register_anchor 4 4 ex_start) ! 4 ! 4 = 9 \<and>
   registrations (log_out (controller_step 1500 100 90 ex_start)) = [(4, 4, 1)] \<and>
   registrations (log_out (controller_step 2500 90 90 ex_moved_left)) = [(4, 4, 1), (4, 3, 2)]"
proof -
  have r0: "reachable ex_start"
    using reachable.mode3 [where now = 1000 and a = 0 and f = 0 and tx = "[]"]
    by (simp add: ex_start_def ctrl_boot_def)
  have r1: "reachable ex_moved_left"
    unfolding ex_moved_left_def using r0 by (rule reachable.step)
  have r: "reachable ex_at_left_wall"
    unfolding ex_at_left_wall_def using r0 by (auto intro!: reachable.step)
  note w = C4_anchor_registry [OF r, where a = 3 and f = 0]
  note s = C4_anchor_registry [OF r0, where a = 4 and f = 4 and now = 1500 and bpm_now = 100
      and cry_now = 90]
  note i = C4_anchor_registry [OF r1, where now = 2500 and bpm_now = 90 and cry_now = 90]
  have regs: "registrations (log_out ex_at_left_wall) =
     [(4, 4, 1), (4, 3, 2), (4, 2, 3), (4, 1, 4), (4, 0, 5)]"
    "registrations (log_out ex_start) = []"
    "registrations (log_out ex_moved_left) = [(4, 4, 1)]"
    by (simp_all add: ex_at_left_wall_eq ex_start_eq ex_moved_left_eq)
  have hw: "on_grid 3 0 \<and> anchorMatrix ex_at_left_wall ! nat 3 ! nat 0 = 0"
    by (simp add: ex_at_left_wall_eq on_grid_def)
  have hs: "on_grid 4 4 \<and> anchorMatrix ex_start ! nat 4 ! nat 4 = 0"
    by (simp add: ex_start_eq on_grid_def)
  have hs2: "\<not> panic_mode ex_start \<and>
      \<not> (0 < ctrl_lastBPM ex_start \<and> 30 \<le> 100 - ctrl_lastBPM ex_start) \<and>
      lastMoveDir ex_start = 0 \<and>
      (anchorA_mem ex_start \<noteq> curA ex_start \<or> anchorF_mem ex_start \<noteq> curF ex_start) \<and>
      anchorMatrix ex_start ! nat (curA ex_start) ! nat (curF ex_start) = 0"
    by (simp add: ex_start_eq)
  have hi: "\<not> panic_mode ex_moved_left \<and>
      \<not> (0 < ctrl_lastBPM ex_moved_left \<and> 30 \<le> 90 - ctrl_lastBPM ex_moved_left) \<and>
      lastMoveDir ex_moved_left \<noteq> 0 \<and> fst (check_improved 90 90 ex_moved_left) \<and>
      anchorMatrix ex_moved_left ! nat (curA ex_moved_left) ! nat (curF ex_moved_left) = 0"
    by (simp add: ex_moved_left_eq check_improved_def heartbeat_improved_def thresholdBPM_def
        Let_def)
  have a1: "map (\<lambda>(a, f, l). 10 - l) (registrations (log_out ex_at_left_wall)) = [9, 8, 7, 6, 5]"
    using w [THEN conjunct1] by (simp add: regs)
  have a2: "registrations (log_out (register_anchor 3 0 ex_at_left_wall)) =
     [(4, 4, 1), (4, 3, 2), (4, 2, 3), (4, 1, 4), (4, 0, 5), (3, 0, 6)]"
    "anchorMatrix (register_anchor 3 0 ex_at_left_wall) ! 3 ! 0 = 4"
    using w hw by (simp_all add: regs)
  have a3: "registrations (log_out (register_anchor 4 4 ex_start)) = [(4, 4, 1)]"
    "anchorMatrix (register_anchor 4 4 ex_start) ! 4 ! 4 = 9"
    using s hs by (simp_all add: regs)
  have a4: "registrations (log_out (controller_step 1500 100 90 ex_start)) = [(4, 4, 1)]"
  proof -
    have "take (length (registrations (log_out ex_start)) + 1)
        (registrations (log_out (controller_step 1500 100 90 ex_start))) =
      registrations (log_out ex_start) @
        [(curA ex_start, curF ex_start, int (length (registrations (log_out ex_start))) + 1)]"
      using s hs2 by blast
    moreover have "controller_step 1500 100 90 ex_start = ex_moved_left"
      by (simp add: ex_moved_left_def)
    ultimately show ?thesis by (simp add: regs ex_start_eq)
  qed
  have a5: "registrations (log_out (controller_step 2500 90 90 ex_moved_left)) =
      [(4, 4, 1), (4, 3, 2)]"
  proof -
    have "registrations (log_out (controller_step 2500 90 90 ex_moved_left)) =
      registrations (log_out ex_moved_left) @
        [(curA ex_moved_left, curF ex_moved_left,
          int (length (registrations (log_out ex_moved_left))) + 1)]"
      using i hi by blast
    then show ?thesis by (simp add: regs ex_moved_left_eq)
  qed
  have a0: "anchorMatrix ex_at_left_wall ! 4 = [5, 6, 7, 8, 9]"
    by (simp add: ex_at_left_wall_eq)
  from r regs(1) a0 a1 a2 a3 a4 a5 show ?thesis by blast
qed

end
